theory Spec2Isabelle
  imports Main "HOL-Library.Sublist" "HOL-Library.AList"
begin

section \<open>Text, files and the Python library functions the scripts call\<close>

text \<open>
  A Python \<^verbatim>\<open>str\<close> is a sequence of Unicode code points, so a character is modelled
  by its code point and a string by a list of code points. ASCII literals are written
  through \<open>u\<close>; other characters by their code point.

  A file store maps a path to what is stored there. A path opened in text mode with
  \<^verbatim>\<open>encoding='utf-8'\<close> either yields its text or raises: \<open>Undecodable\<close> is a file
  whose bytes are not UTF-8 (\<^verbatim>\<open>UnicodeDecodeError\<close> from \<^verbatim>\<open>read\<close>),
  \<open>Inaccessible\<close> a directory or a file without permission (\<^verbatim>\<open>OSError\<close> from
  \<^verbatim>\<open>open\<close>).
  The store holds the text as the text layer presents it when the file is read. A
  text that is written and read again comes back as it was when it has no carriage
  return; a carriage return that a script writes would come back as a line feed,
  which the store does not show.
\<close>

type_synonym uchar = nat
type_synonym ustring = "uchar list"
type_synonym path = string

definition u :: "string \<Rightarrow> ustring" where
  "u s = map of_char s"

datatype node = File ustring | Undecodable | Inaccessible

type_synonym fs = "path \<Rightarrow> node option"

datatype exn =
    FileNotFoundError
  | OSError
  | UnicodeDecodeError
  | JSONDecodeError
  | AttributeError
  | TypeError

text \<open>\<^verbatim>\<open>with open(p, 'r', encoding='utf-8') as f: f.read()\<close>\<close>

definition read_text :: "fs \<Rightarrow> path \<Rightarrow> exn + ustring" where
  "read_text s p =
     (case s p of
        None \<Rightarrow> Inl FileNotFoundError
      | Some Inaccessible \<Rightarrow> Inl OSError
      | Some Undecodable \<Rightarrow> Inl UnicodeDecodeError
      | Some (File t) \<Rightarrow> Inr t)"

text \<open>\<^verbatim>\<open>os.path.exists(p)\<close>\<close>

definition path_exists :: "fs \<Rightarrow> path \<Rightarrow> bool" where
  "path_exists s p = (s p \<noteq> None)"

text \<open>
  \<^verbatim>\<open>with open(p, 'w', encoding='utf-8') as f: f.write(t)\<close>.
  Mode \<^verbatim>\<open>'w'\<close> truncates the file when it is opened and the text is written
  afterwards. The environment decides whether the operation fails: the open itself can
  fail (nothing is touched), or the write can fail after the open has truncated the
  file and some prefix of the text has reached it.
\<close>

datatype wfault = NoFault | OpenFails | WriteFails nat

definition write_text :: "wfault \<Rightarrow> fs \<Rightarrow> path \<Rightarrow> ustring \<Rightarrow> fs \<times> exn option" where
  "write_text flt s p t =
     (case flt of
        NoFault \<Rightarrow> (s(p \<mapsto> File t), None)
      | OpenFails \<Rightarrow> (s, Some OSError)
      | WriteFails n \<Rightarrow> (s(p \<mapsto> File (take n t)), Some OSError))"

subsection \<open>\<^verbatim>\<open>str\<close> methods\<close>

text \<open>
  \<^verbatim>\<open>str.isspace\<close> for one character: the code points of Unicode's White\_Space
  property together with the separators U+001C..U+001F, as CPython tabulates them.
\<close>

definition py_isspace :: "uchar \<Rightarrow> bool" where
  "py_isspace c \<longleftrightarrow>
     (9 \<le> c \<and> c \<le> 13) \<or> (28 \<le> c \<and> c \<le> 32) \<or> c = 133 \<or> c = 160 \<or> c = 5760 \<or>
     (8192 \<le> c \<and> c \<le> 8202) \<or> c = 8232 \<or> c = 8233 \<or> c = 8239 \<or> c = 8287 \<or>
     c = 12288"

text \<open>\<^verbatim>\<open>s.strip()\<close>: whitespace is removed at both ends.\<close>

definition py_strip :: "ustring \<Rightarrow> ustring" where
  "py_strip s = rev (dropWhile py_isspace (rev (dropWhile py_isspace s)))"

text \<open>\<^verbatim>\<open>pat in s\<close>: \<open>pat\<close> occurs in \<open>s\<close> at some position. The empty pattern occurs
  in every string.\<close>

fun py_in :: "ustring \<Rightarrow> ustring \<Rightarrow> bool" where
  "py_in pat [] = (pat = [])"
| "py_in pat (c # cs) = (prefix pat (c # cs) \<or> py_in pat cs)"

text \<open>
  \<^verbatim>\<open>s.replace(old, new)\<close>: the occurrences of \<open>old\<close> are found from left to right,
  each search resuming behind the previous occurrence. For the empty pattern Python
  inserts \<open>new\<close> before every character and at the end.
\<close>

fun replace_from :: "ustring \<Rightarrow> ustring \<Rightarrow> ustring \<Rightarrow> ustring" where
  "replace_from old new [] = []"
| "replace_from old new (c # cs) =
     (if old \<noteq> [] \<and> prefix old (c # cs)
      then new @ replace_from old new (drop (length old - 1) cs)
      else c # replace_from old new cs)"

definition py_replace :: "ustring \<Rightarrow> ustring \<Rightarrow> ustring \<Rightarrow> ustring" where
  "py_replace old new s =
     (if old = [] then new @ concat (map (\<lambda>c. c # new) s)
      else replace_from old new s)"

text \<open>\<^verbatim>\<open>s.split('\n')\<close>: the pieces between line feeds; never an empty list.\<close>

fun split_nl :: "ustring \<Rightarrow> ustring list" where
  "split_nl [] = [[]]"
| "split_nl (c # cs) =
     (if c = 10 then [] # split_nl cs
      else (case split_nl cs of [] \<Rightarrow> [[c]] | l # ls \<Rightarrow> (c # l) # ls))"

text \<open>\<^verbatim>\<open>for line in f\<close>: the lines of a text file, each with its line feed when it
  has one; an empty file has no line.\<close>

fun file_lines :: "ustring \<Rightarrow> ustring list" where
  "file_lines [] = []"
| "file_lines (c # cs) =
     (if c = 10 then [10] # file_lines cs
      else (case file_lines cs of [] \<Rightarrow> [[c]] | l # ls \<Rightarrow> (c # l) # ls))"

text \<open>
  Two functions of Python that the scripts do not call, used to say what
  \<^verbatim>\<open>replace\<close> does: \<^verbatim>\<open>sep.join(pieces)\<close>, and \<^verbatim>\<open>s.split(old)\<close> for a
  non-empty \<open>old\<close>, the pieces of \<open>s\<close> between the occurrences of \<open>old\<close> that
  a search from left to right finds.
\<close>

fun join :: "ustring \<Rightarrow> ustring list \<Rightarrow> ustring" where
  "join sep [] = []"
| "join sep [x] = x"
| "join sep (x # y # ys) = x @ sep @ join sep (y # ys)"

fun segments :: "ustring \<Rightarrow> ustring \<Rightarrow> ustring list" where
  "segments old [] = [[]]"
| "segments old (c # cs) =
     (if old \<noteq> [] \<and> prefix old (c # cs)
      then [] # segments old (drop (length old - 1) cs)
      else (case segments old cs of [] \<Rightarrow> [[c]] | seg # segs \<Rightarrow> (c # seg) # segs))"

text \<open>
  \<^verbatim>\<open>s.rstrip()\<close>, which the scripts do not call: whitespace is removed at the end
  only. It states what a trailing trim alone would leave.
\<close>

definition py_rstrip :: "ustring \<Rightarrow> ustring" where
  "py_rstrip s = rev (dropWhile py_isspace (rev s))"

section \<open>\<^verbatim>\<open>log_parser.py\<close>\<close>

text \<open>
  \<^verbatim>\<open>parse_log\<close> returns the list comprehension's value, or the empty list from either
  handler: \<^verbatim>\<open>except FileNotFoundError\<close> and \<^verbatim>\<open>except Exception\<close>.
\<close>

definition parse_log :: "fs \<Rightarrow> path \<Rightarrow> ustring list" where
  "parse_log s file_path =
     (case read_text s file_path of
        Inl FileNotFoundError \<Rightarrow> []
      | Inl _ \<Rightarrow> []
      | Inr t \<Rightarrow> map py_strip (filter (\<lambda>line. py_strip line \<noteq> []) (file_lines t)))"

section \<open>\<^verbatim>\<open>fix_script.py\<close>\<close>

text \<open>
  A Python \<^verbatim>\<open>dict\<close> keeps its keys in the order of their first insertion; storing
  under a key that is present replaces the value in place. It is modelled by an
  association list with that update; \<^verbatim>\<open>items()\<close> is the list itself.
\<close>

type_synonym dict = "(ustring \<times> ustring) list"

definition dict_set :: "dict \<Rightarrow> ustring \<Rightarrow> ustring \<Rightarrow> dict" where
  "dict_set d k v = AList.update k v d"

text \<open>\<^verbatim>\<open>{orig: trans for orig, trans in zip(original_lines, translated_lines)}\<close>\<close>

definition dict_of_pairs :: "(ustring \<times> ustring) list \<Rightarrow> dict" where
  "dict_of_pairs ps = foldl (\<lambda>d (orig, trans). dict_set d orig trans) [] ps"

definition create_replacement_map :: "fs \<Rightarrow> path \<Rightarrow> path \<Rightarrow> dict option" where
  "create_replacement_map s proof_log_path translated_log_path =
     (let original_lines = parse_log s proof_log_path;
          translated_lines = parse_log s translated_log_path
      in if original_lines = [] \<or> translated_lines = [] then None
         else Some (dict_of_pairs (zip original_lines translated_lines)))"

text \<open>
  The loop of \<^verbatim>\<open>main\<close> over \<^verbatim>\<open>replacements.items()\<close>; the state is
  \<^verbatim>\<open>(content, modified_count)\<close>.
\<close>

fun apply_rules :: "dict \<Rightarrow> ustring \<times> nat \<Rightarrow> ustring \<times> nat" where
  "apply_rules [] st = st"
| "apply_rules ((old, new) # rest) (content, modified_count) =
     (if py_in old content
      then apply_rules rest (py_replace old new content, modified_count + 1)
      else apply_rules rest (content, modified_count))"

text \<open>
  \<^verbatim>\<open>main\<close> returns nothing; what it reports is the last message it logs, kept here
  as the outcome together with the value of \<^verbatim>\<open>modified_count\<close> where the loop has
  run. Reading the target catches \<^verbatim>\<open>FileNotFoundError\<close> only, so any other error
  of the read leaves \<^verbatim>\<open>main\<close> as an uncaught exception (\<open>Crash\<close>). The
  definition follows \<^verbatim>\<open>main\<close> from the call of \<^verbatim>\<open>create_replacement_map\<close> on;
  the log handler that \<^verbatim>\<open>main\<close> sets up before is described behind it.
\<close>

datatype main_outcome =
    NoMap
  | TargetNotFound
  | Crash exn
  | NoChanges nat
  | Modified nat
  | WriteError nat

definition main :: "wfault \<Rightarrow> fs \<Rightarrow> path \<Rightarrow> path \<Rightarrow> path \<Rightarrow> fs \<times> main_outcome" where
  "main target_fault s proof_log translated_log target_file =
     (case create_replacement_map s proof_log translated_log of
        None \<Rightarrow> (s, NoMap)
      | Some replacements \<Rightarrow>
          if replacements = [] then (s, NoMap)
          else
            (case read_text s target_file of
               Inl FileNotFoundError \<Rightarrow> (s, TargetNotFound)
             | Inl e \<Rightarrow> (s, Crash e)
             | Inr original_content \<Rightarrow>
                 (case apply_rules replacements (original_content, 0) of
                    (content, modified_count) \<Rightarrow>
                      if original_content = content then (s, NoChanges modified_count)
                      else
                        (case write_text target_fault s target_file content of
                           (s', None) \<Rightarrow> (s', Modified modified_count)
                         | (s', Some e) \<Rightarrow> (s', WriteError modified_count)))))"

text \<open>
  \<^verbatim>\<open>main\<close> begins with
  \<^verbatim>\<open>logging.FileHandler("fix_script.log", mode='w', encoding='utf-8')\<close>: before
  anything is read, the file \<^verbatim>\<open>fix_script.log\<close> is truncated, and every message
  logged afterwards is appended to it. So the store that the rest of \<^verbatim>\<open>main\<close>
  works on is the caller's store in which this one file holds the records written so
  far, whatever it held before.
\<close>

definition with_fix_script_log :: "fs \<Rightarrow> ustring \<Rightarrow> fs" where
  "with_fix_script_log s records = s(''fix_script.log'' \<mapsto> File records)"

section \<open>\<^verbatim>\<open>check_languages.py\<close>\<close>

text \<open>
  What \<^verbatim>\<open>json.load\<close> can return for \<^verbatim>\<open>replacements.json\<close>: an object, whose
  values are strings or something else, or a value that is not an object. The state of
  that file is a parameter of the model.
\<close>

datatype jvalue = JStr ustring | JNonStr

datatype json = JObject "(ustring \<times> jvalue) list" | JNonObject

datatype cfg_store = CfgMissing | CfgMalformed | CfgUnreadable | CfgJson json

text \<open>
  \<^verbatim>\<open>load_replacements\<close> catches \<^verbatim>\<open>FileNotFoundError\<close> and
  \<^verbatim>\<open>json.JSONDecodeError\<close> and returns \<^verbatim>\<open>{}\<close> for them; any other error of
  the read goes to the caller.
\<close>

definition load_replacements :: "cfg_store \<Rightarrow> exn + json" where
  "load_replacements cfg =
     (case cfg of
        CfgMissing \<Rightarrow> Inr (JObject [])
      | CfgMalformed \<Rightarrow> Inr (JObject [])
      | CfgUnreadable \<Rightarrow> Inl OSError
      | CfgJson j \<Rightarrow> Inr j)"

text \<open>
  \<^verbatim>\<open>for old, new in replacements.items(): content = content.replace(old, new + ' ')\<close>.
  \<^verbatim>\<open>new + ' '\<close> raises \<^verbatim>\<open>TypeError\<close> when \<open>new\<close> is not a string.
\<close>

fun apply_custom :: "(ustring \<times> jvalue) list \<Rightarrow> ustring \<Rightarrow> exn + ustring" where
  "apply_custom [] content = Inr content"
| "apply_custom ((old, new) # rest) content =
     (case new of
        JStr n \<Rightarrow> apply_custom rest (py_replace old (n @ [32]) content)
      | JNonStr \<Rightarrow> Inl TypeError)"

text \<open>The two character classes; a search for \<^verbatim>\<open>[...]+\<close> succeeds when some
  character of the string is in the class.\<close>

definition japanese_pattern :: "uchar \<Rightarrow> bool" where
  "japanese_pattern c \<longleftrightarrow> (0x3040 \<le> c \<and> c \<le> 0x309F) \<or> (0x30A0 \<le> c \<and> c \<le> 0x30FF)"

definition chinese_pattern :: "uchar \<Rightarrow> bool" where
  "chinese_pattern c \<longleftrightarrow> 0x4E00 \<le> c \<and> c \<le> 0x9FFF"

definition re_search :: "(uchar \<Rightarrow> bool) \<Rightarrow> ustring \<Rightarrow> bool" where
  "re_search cls s = list_ex cls s"

text \<open>
  \<^verbatim>\<open>re.sub(r'\(.*?\)', '', line)\<close>. A match starts at an opening parenthesis and
  ends at the first closing parenthesis behind it, provided no line feed lies between
  them (\<^verbatim>\<open>.\<close> matches any character but the line feed). \<open>match_close cs\<close> is the
  number of characters of \<open>cs\<close> the match takes behind its opening parenthesis. The
  scan resumes behind a match; where no match starts, the character is kept.
\<close>

fun match_close :: "ustring \<Rightarrow> nat option" where
  "match_close [] = None"
| "match_close (c # cs) =
     (if c = 41 then Some 1
      else if c = 10 then None
      else map_option Suc (match_close cs))"

fun re_sub_parens :: "ustring \<Rightarrow> ustring" where
  "re_sub_parens [] = []"
| "re_sub_parens (c # cs) =
     (if c = 40 then
        (case match_close cs of
           Some n \<Rightarrow> re_sub_parens (drop n cs)
         | None \<Rightarrow> c # re_sub_parens cs)
      else c # re_sub_parens cs)"

text \<open>
  The loop over \<^verbatim>\<open>final_lines\<close>; the state is the text written to the log so far
  and \<^verbatim>\<open>found_language\<close>.
\<close>

fun scan_lines :: "ustring list \<Rightarrow> ustring \<times> bool \<Rightarrow> ustring \<times> bool" where
  "scan_lines [] st = st"
| "scan_lines (line # rest) (logged, found_language) =
     (let line_to_check = re_sub_parens line
      in if re_search japanese_pattern line_to_check \<or> re_search chinese_pattern line_to_check
         then scan_lines rest (logged @ py_strip line @ [10], True)
         else scan_lines rest (logged, found_language))"

text \<open>
  \<^verbatim>\<open>check_languages\<close> returns nothing; the outcome is the last message it logs.
  Everything behind the existence test runs under \<^verbatim>\<open>except Exception\<close>, which logs
  and returns. The log file is opened before the loop and written line by line; the
  model hands the text of all lines to one \<open>write_text\<close>, whose faults leave the same
  files behind.
\<close>

datatype cl_outcome = FileNotFound | ErrorOccurred exn | NoneFound | Finished

definition check_languages ::
  "cfg_store \<Rightarrow> wfault \<Rightarrow> wfault \<Rightarrow> fs \<Rightarrow> path \<Rightarrow> path \<Rightarrow> fs \<times> cl_outcome" where
  "check_languages cfg doc_fault log_fault s file_path log_file =
     (if \<not> path_exists s file_path then (s, FileNotFound)
      else
        (case read_text s file_path of
           Inl e \<Rightarrow> (s, ErrorOccurred e)
         | Inr original \<Rightarrow>
             (case load_replacements cfg of
                Inl e \<Rightarrow> (s, ErrorOccurred e)
              | Inr JNonObject \<Rightarrow> (s, ErrorOccurred AttributeError)
              | Inr (JObject replacements) \<Rightarrow>
                  (case apply_custom replacements original of
                     Inl e \<Rightarrow> (s, ErrorOccurred e)
                   | Inr content \<Rightarrow>
                       (case write_text doc_fault s file_path content of
                          (s1, Some e) \<Rightarrow> (s1, ErrorOccurred e)
                        | (s1, None) \<Rightarrow>
                            (case scan_lines (split_nl content) ([], False) of
                               (logged, found_language) \<Rightarrow>
                                 (case write_text log_fault s1 log_file logged of
                                    (s2, Some e) \<Rightarrow> (s2, ErrorOccurred e)
                                  | (s2, None) \<Rightarrow>
                                      (s2, if found_language then Finished else NoneFound))))))))"

section \<open>Example inputs\<close>

definition example_logs :: fs where
  "example_logs =
     Map.empty(''proof.log'' \<mapsto> File (u ''A'' @ [10] @ u ''B'' @ [10] @ u ''A'' @ [10] @ u ''C'' @ [10]),
               ''translated.log'' \<mapsto> File (u ''1'' @ [10] @ u ''2'' @ [10] @ u ''3'' @ [10]))"

definition example_cascade :: fs where
  "example_cascade =
     Map.empty(''proof.log'' \<mapsto> File (u ''foo'' @ [10] @ u ''bar'' @ [10]),
               ''translated.log'' \<mapsto> File (u ''bar'' @ [10] @ u ''baz'' @ [10]),
               ''target.txt'' \<mapsto> File (u ''foo''))"


definition example_count :: fs where
  "example_count =
     Map.empty(''proof.log'' \<mapsto> File (u ''aa'' @ [10] @ u ''zz'' @ [10] @ u ''b'' @ [10]),
               ''translated.log'' \<mapsto> File (u ''b'' @ [10] @ u ''y'' @ [10] @ u ''c'' @ [10]),
               ''target.txt'' \<mapsto> File (u ''aaaaa''))"

definition example_scan :: fs where
  "example_scan =
     Map.empty(''doc.txt'' \<mapsto>
       File (u ''hello ('' @ [0x65E5, 0x672C, 0x8A9E] @ u '') world'' @ [10] @
             u ''  hello '' @ [0x65E5, 0x672C, 0x8A9E] @ u '' world '' @ [10] @
             u ''plain''))"

definition example_sjis :: fs where
  "example_sjis =
     Map.empty(''doc.txt'' \<mapsto> Undecodable,
               ''language_check.log'' \<mapsto> File (u ''old finding'' @ [10]))"

definition example_plain :: fs where
  "example_plain =
     Map.empty(''doc.txt'' \<mapsto> File (u ''plain (text)'' @ [10]),
               ''language_check.log'' \<mapsto> File (u ''old finding'' @ [10]))"

definition example_a :: fs where
  "example_a = Map.empty(''doc.txt'' \<mapsto> File (u ''a''))"

section \<open>Properties of the library functions\<close>

lemma py_strip_decomp:
  "\<exists>a b. l = a @ py_strip l @ b \<and> list_all py_isspace a \<and> list_all py_isspace b"
proof -
  define m where "m = dropWhile py_isspace l"
  have 1: "l = takeWhile py_isspace l @ m" by (simp add: m_def)
  have "rev (takeWhile py_isspace (rev m) @ dropWhile py_isspace (rev m)) = rev (rev m)"
    by (simp only: takeWhile_dropWhile_id)
  then have "rev (dropWhile py_isspace (rev m)) @ rev (takeWhile py_isspace (rev m)) = m"
    by (simp only: rev_append rev_rev_ident)
  then have 2: "m = py_strip l @ rev (takeWhile py_isspace (rev m))"
    by (simp only: py_strip_def m_def)
  have 3: "list_all py_isspace (takeWhile py_isspace l)"
    by (simp add: list_all_iff) (meson set_takeWhileD)
  have 4: "list_all py_isspace (rev (takeWhile py_isspace (rev m)))"
    by (simp add: list_all_iff) (meson set_takeWhileD)
  from 1 2 have "l = takeWhile py_isspace l @ py_strip l @ rev (takeWhile py_isspace (rev m))"
    by simp
  with 3 4 show ?thesis by blast
qed

lemma py_strip_ends:
  assumes "py_strip l \<noteq> []"
  shows "\<not> py_isspace (hd (py_strip l))" and "\<not> py_isspace (last (py_strip l))"
proof -
  define m where "m = dropWhile py_isspace l"
  define r where "r = dropWhile py_isspace (rev m)"
  have s: "py_strip l = rev r" by (simp add: py_strip_def m_def r_def)
  with assms have rne: "r \<noteq> []" by simp
  then have mne: "m \<noteq> []" by (auto simp: r_def)
  have "last (rev r) = hd r" using rne by (simp add: last_rev)
  moreover have "\<not> py_isspace (hd r)" using rne unfolding r_def by (rule hd_dropWhile)
  ultimately show "\<not> py_isspace (last (py_strip l))" using s by simp
  have "r = dropWhile py_isspace (rev m)" by (simp add: r_def)
  have "\<exists>pre. rev m = pre @ r" unfolding r_def by (metis takeWhile_dropWhile_id)
  then obtain pre where "rev m = pre @ r" ..
  then have "last (rev m) = last r" using rne by simp
  then have "hd m = last r" using mne by (simp add: last_rev)
  moreover have "\<not> py_isspace (hd m)" using mne unfolding m_def by (rule hd_dropWhile)
  moreover have "hd (rev r) = last r" using rne by (simp add: hd_rev)
  ultimately show "\<not> py_isspace (hd (py_strip l))" using s by simp
qed

lemma concat_file_lines: "concat (file_lines t) = t"
  by (induction t) (auto split: list.splits)

lemma file_lines_nonempty: "l \<in> set (file_lines t) \<Longrightarrow> l \<noteq> []"
  by (induction t arbitrary: l) (auto split: list.splits if_splits)

lemma file_lines_butlast: "l \<in> set (file_lines t) \<Longrightarrow> 10 \<notin> set (butlast l)"
  by (induction t arbitrary: l) (auto split: list.splits if_splits dest: file_lines_nonempty)

lemma file_lines_terminated:
  "l \<in> set (butlast (file_lines t)) \<Longrightarrow> last l = 10"
proof (induction t arbitrary: l)
  case Nil
  then show ?case by simp
next
  case (Cons c cs)
  show ?case
  proof (cases "c = 10")
    case True
    with Cons show ?thesis by (auto split: if_splits)
  next
    case False
    show ?thesis
    proof (cases "file_lines cs")
      case Nil
      with False Cons.prems show ?thesis by simp
    next
      case (Cons k ks)
      have kne: "k \<noteq> []" using file_lines_nonempty [of k cs] Cons by simp
      show ?thesis
      proof (cases "ks = []")
        case True
        with False Cons Cons.prems show ?thesis by simp
      next
        case nonempty: False
        with False Cons Cons.prems have "l = c # k \<or> l \<in> set (butlast ks)" by simp
        moreover have "last k = 10" using Cons.IH [of k] Cons nonempty by simp
        moreover have "l \<in> set (butlast ks) \<Longrightarrow> last l = 10"
          using Cons.IH [of l] Cons nonempty by simp
        ultimately show ?thesis using kne by auto
      qed
    qed
  qed
qed

lemma parse_log_filter_map:
  "map py_strip (filter (\<lambda>line. py_strip line \<noteq> []) ls) = filter (\<lambda>x. x \<noteq> []) (map py_strip ls)"
  by (induction ls) auto

lemma map_of_foldl_dict_set:
  "map_of (foldl (\<lambda>d (k, v). dict_set d k v) d ps) = map_of d ++ map_of (rev ps)"
proof (induction ps arbitrary: d)
  case Nil
  then show ?case by simp
next
  case (Cons p ps)
  obtain k v where p: "p = (k, v)" by (cases p)
  have "map_of (dict_set d k v) ++ map_of (rev ps) = map_of d ++ (map_of [(k, v)] ++ map_of (rev ps))"
    by (simp add: dict_set_def update_conv' fun_eq_iff map_add_def split: option.splits)
  then show ?case using Cons.IH [of "dict_set d k v"] by (simp add: p)
qed

lemma map_of_rev_last_wins:
  "i < length ps \<Longrightarrow> (\<forall>j. i < j \<and> j < length ps \<longrightarrow> fst (ps ! j) \<noteq> fst (ps ! i)) \<Longrightarrow>
   map_of (rev ps) (fst (ps ! i)) = Some (snd (ps ! i))"
proof (induction ps rule: rev_induct)
  case Nil
  then show ?case by simp
next
  case (snoc q qs)
  show ?case
  proof (cases "i = length qs")
    case True
    then show ?thesis by (cases q) simp
  next
    case False
    with snoc.prems have i: "i < length qs" by simp
    have ne: "fst q \<noteq> fst (qs ! i)"
      using snoc.prems(2) [rule_format, of "length qs"] i by (simp add: nth_append)
    have "\<forall>j. i < j \<and> j < length qs \<longrightarrow> fst (qs ! j) \<noteq> fst (qs ! i)"
    proof (intro allI impI)
      fix j assume "i < j \<and> j < length qs"
      then show "fst (qs ! j) \<noteq> fst (qs ! i)"
        using snoc.prems(2) [rule_format, of j] i by (simp add: nth_append)
    qed
    then have "map_of (rev qs) (fst (qs ! i)) = Some (snd (qs ! i))"
      using snoc.IH i by blast
    then show ?thesis using ne i by (cases q) (auto simp: nth_append)
  qed
qed

lemma keys_dict_set:
  "map fst (dict_set d k v) = (if k \<in> set (map fst d) then map fst d else map fst d @ [k])"
  by (simp only: dict_set_def update_keys)

lemma keys_foldl_dict_set:
  "map fst (foldl (\<lambda>d (k, v). dict_set d k v) [] ps) = rev (remdups (rev (map fst ps)))"
proof (induction ps rule: rev_induct)
  case Nil
  then show ?case by simp
next
  case (snoc q qs)
  obtain k v where q: "q = (k, v)" by (cases q)
  let ?d = "foldl (\<lambda>d (k, v). dict_set d k v) [] qs"
  have keys: "set (map fst ?d) = fst ` set qs" by (simp add: snoc.IH)
  have "map fst (dict_set ?d k v) =
          (if k \<in> fst ` set qs then map fst ?d else map fst ?d @ [k])"
    by (simp only: keys_dict_set keys)
  then show ?case by (simp add: q snoc.IH)
qed

lemma map_fst_zip_take: "map fst (zip xs ys) = take (min (length xs) (length ys)) xs"
  by (induction xs ys rule: list_induct2') auto

lemma py_in_sublist: "py_in pat s \<longleftrightarrow> sublist pat s"
  by (induction s) (auto simp: sublist_Cons_right)

lemma segments_nonempty: "segments old s \<noteq> []"
  by (induction old s rule: segments.induct) (auto split: list.splits)

lemma prefix_drop_pred:
  assumes "old \<noteq> []" and "prefix old (c # cs)"
  shows "c # cs = old @ drop (length old - 1) cs"
proof -
  from assms(2) obtain r where r: "c # cs = old @ r" by (auto simp: prefix_def)
  with assms(1) obtain o' where o': "old = c # o'" by (cases old) auto
  with r have "cs = o' @ r" by simp
  then show ?thesis using o' by simp
qed

lemma join_Cons: "ys \<noteq> [] \<Longrightarrow> join sep (x # ys) = x @ sep @ join sep ys"
  by (cases ys) auto

lemma join_Cons_Cons: "join sep ((c # x) # ys) = c # join sep (x # ys)"
  by (cases ys) auto

lemma join_segments: "join old (segments old s) = s"
proof (induction old s rule: segments.induct)
  case (1 old)
  then show ?case by simp
next
  case (2 old c cs)
  show ?case
  proof (cases "old \<noteq> [] \<and> prefix old (c # cs)")
    case True
    then have "join old (segments old (c # cs)) = old @ join old (segments old (drop (length old - 1) cs))"
      by (simp add: join_Cons segments_nonempty)
    also have "\<dots> = old @ drop (length old - 1) cs" using 2(1) True by simp
    also have "\<dots> = c # cs" using prefix_drop_pred True by metis
    finally show ?thesis .
  next
    case False
    obtain seg segs where sg: "segments old cs = seg # segs"
      using segments_nonempty [of old cs] by (cases "segments old cs") auto
    have "join old ((c # seg) # segs) = c # join old (seg # segs)"
      by (rule join_Cons_Cons)
    then show ?thesis using False sg 2(2) by auto
  qed
qed

lemma replace_from_join: "replace_from old new s = join new (segments old s)"
proof (induction old s rule: segments.induct)
  case (1 old)
  then show ?case by simp
next
  case (2 old c cs)
  show ?case
  proof (cases "old \<noteq> [] \<and> prefix old (c # cs)")
    case True
    then show ?thesis using 2(1) by (simp add: join_Cons segments_nonempty)
  next
    case False
    obtain seg segs where sg: "segments old cs = seg # segs"
      using segments_nonempty [of old cs] by (cases "segments old cs") auto
    have "join new ((c # seg) # segs) = c # join new (seg # segs)"
      by (rule join_Cons_Cons)
    then show ?thesis using False sg 2(2) by auto
  qed
qed

lemma not_sublist_butlast: "old \<noteq> [] \<Longrightarrow> \<not> sublist old (butlast old)"
proof
  assume ne: "old \<noteq> []" and "sublist old (butlast old)"
  then have "length old \<le> length (butlast old)" by (rule_tac sublist_length_le)
  then have "length old \<le> length old - 1" by (simp only: length_butlast)
  moreover have "0 < length old" using ne by simp
  ultimately show False by arith
qed

lemma segments_leftmost:
  "old \<noteq> [] \<longrightarrow>
     (\<forall>i. Suc i < length (segments old s) \<longrightarrow>
            \<not> sublist old (segments old s ! i @ butlast old)) \<and>
     \<not> sublist old (last (segments old s))"
proof (induction old s rule: segments.induct)
  case (1 old)
  then show ?case by simp
next
  case (2 old c cs)
  show ?case
  proof (cases "old \<noteq> [] \<and> prefix old (c # cs)")
    case True
    let ?rest = "segments old (drop (length old - 1) cs)"
    have seg: "segments old (c # cs) = [] # ?rest" using True by simp
    have ih: "(\<forall>i. Suc i < length ?rest \<longrightarrow> \<not> sublist old (?rest ! i @ butlast old)) \<and>
              \<not> sublist old (last ?rest)"
      using 2(1) True by simp
    have ne: "?rest \<noteq> []" by (rule segments_nonempty)
    have "\<not> sublist old (([] # ?rest) ! i @ butlast old)" if "Suc i < length ([] # ?rest)" for i
    proof (cases i)
      case 0
      then show ?thesis using not_sublist_butlast [of old] True by simp
    next
      case (Suc k)
      then show ?thesis using ih that by simp
    qed
    moreover have "\<not> sublist old (last ([] # ?rest))" using ih ne by simp
    ultimately show ?thesis unfolding seg by blast
  next
    case False
    show ?thesis
    proof (cases "old = []")
      case True
      then show ?thesis by simp
    next
      case oldne: False
      with False have np: "\<not> prefix old (c # cs)" by simp
      obtain seg segs where sg: "segments old cs = seg # segs"
        using segments_nonempty [of old cs] by (cases "segments old cs") auto
      have res: "segments old (c # cs) = (c # seg) # segs" using False sg by simp
      have ih: "(\<forall>i. Suc i < length (seg # segs) \<longrightarrow> \<not> sublist old ((seg # segs) ! i @ butlast old)) \<and>
                \<not> sublist old (last (seg # segs))"
        using 2(2) False sg oldne by simp
      have cs: "cs = join old (seg # segs)" using join_segments [of old cs] sg by simp
      show ?thesis
      proof (cases "segs = []")
        case True
        then have "cs = seg" using cs by simp
        moreover have "\<not> sublist old seg" using ih True by simp
        ultimately have "\<not> sublist old (c # seg)" using np by (simp add: sublist_Cons_right)
        then show ?thesis unfolding res using True by simp
      next
        case segsne: False
        have "cs = seg @ old @ join old segs" using cs segsne by (simp add: join_Cons)
        then have "c # cs = (c # seg @ butlast old) @ (last old # join old segs)"
          using oldne by (metis append.assoc append_Cons append_Nil append_butlast_last_id)
        then have "prefix (c # seg @ butlast old) (c # cs)" by (metis prefixI)
        then have np0: "\<not> prefix old (c # seg @ butlast old)"
          using np prefix_order.trans by blast
        have "\<not> sublist old (seg @ butlast old)"
          using ih [THEN conjunct1, rule_format, of 0] segsne by simp
        then have first: "\<not> sublist old ((c # seg) @ butlast old)"
          using np0 by (simp add: sublist_Cons_right)
        have "\<not> sublist old (((c # seg) # segs) ! i @ butlast old)"
          if "Suc i < length ((c # seg) # segs)" for i
        proof (cases i)
          case 0
          then show ?thesis using first by simp
        next
          case (Suc k)
          then show ?thesis using ih [THEN conjunct1, rule_format, of i] that by simp
        qed
        moreover have "\<not> sublist old (last ((c # seg) # segs))" using ih segsne by simp
        ultimately show ?thesis unfolding res by blast
      qed
    qed
  qed
qed

section \<open>Properties of the loops\<close>

lemma py_replace_absent: "\<not> sublist old s \<Longrightarrow> py_replace old new s = s"
proof -
  assume a: "\<not> sublist old s"
  then have ne: "old \<noteq> []" by auto
  have "replace_from old new t = t" if "\<not> sublist old t" for t
    using that
  proof (induction t)
    case Nil
    then show ?case by simp
  next
    case (Cons c cs)
    then show ?case by (auto simp: sublist_Cons_right)
  qed
  with a ne show ?thesis by (simp add: py_replace_def)
qed

lemma apply_rules_append:
  "apply_rules (rs1 @ rs2) st = apply_rules rs2 (apply_rules rs1 st)"
  by (induction rs1 st rule: apply_rules.induct) auto

lemma apply_rules_snoc:
  "apply_rules (rs @ [(old, new)]) st =
     (if sublist old (fst (apply_rules rs st))
      then (py_replace old new (fst (apply_rules rs st)), snd (apply_rules rs st) + 1)
      else apply_rules rs st)"
  by (cases "apply_rules rs st") (simp add: apply_rules_append py_in_sublist)


lemma apply_rules_count:
  "snd (apply_rules rules (content, k)) =
     k + length (filter (\<lambda>i. sublist (fst (rules ! i)) (fst (apply_rules (take i rules) (content, k))))
                  [0..<length rules])"
proof (induction rules rule: rev_induct)
  case Nil
  then show ?case by simp
next
  case (snoc r rs)
  obtain old new where r: "r = (old, new)" by (cases r)
  define P where "P = (\<lambda>i. sublist (fst ((rs @ [r]) ! i)) (fst (apply_rules (take i (rs @ [r])) (content, k))))"
  define Q where "Q = (\<lambda>i. sublist (fst (rs ! i)) (fst (apply_rules (take i rs) (content, k))))"
  have same: "filter P [0..<length rs] = filter Q [0..<length rs]"
    by (rule filter_cong) (auto simp: P_def Q_def nth_append)
  have last: "P (length rs) \<longleftrightarrow> sublist old (fst (apply_rules rs (content, k)))"
    by (simp add: P_def r)
  have "filter P [0..<length (rs @ [r])] = filter P [0..<length rs] @ filter P [length rs]"
    by (simp only: length_append_singleton upt_Suc_append [OF le0] filter_append)
  then have len: "length (filter P [0..<length (rs @ [r])]) =
                    length (filter Q [0..<length rs]) + (if P (length rs) then 1 else 0)"
    by (simp add: same)
  have "snd (apply_rules (rs @ [r]) (content, k)) =
          snd (apply_rules rs (content, k)) + (if P (length rs) then 1 else 0)"
    unfolding r last by (simp add: apply_rules_snoc)
  also have "\<dots> = k + length (filter Q [0..<length rs]) + (if P (length rs) then 1 else 0)"
    using snoc.IH by (simp add: Q_def)
  also have "\<dots> = k + length (filter P [0..<length (rs @ [r])])"
    using len by simp
  finally show ?case by (simp only: P_def)
qed

lemma apply_rules_step:
  assumes "i < length rules"
  shows "apply_rules (take (Suc i) rules) st =
           (if sublist (fst (rules ! i)) (fst (apply_rules (take i rules) st))
            then (py_replace (fst (rules ! i)) (snd (rules ! i)) (fst (apply_rules (take i rules) st)),
                  snd (apply_rules (take i rules) st) + 1)
            else apply_rules (take i rules) st)"
proof -
  have "take (Suc i) rules = take i rules @ [(fst (rules ! i), snd (rules ! i))]"
    using assms by (simp add: take_Suc_conv_app_nth)
  then show ?thesis by (simp only: apply_rules_snoc)
qed

lemma py_replace_segments:
  assumes "old \<noteq> []"
  shows "\<exists>segs. segs \<noteq> [] \<and> cur = join old segs \<and> py_replace old new cur = join new segs \<and>
           (\<forall>i. Suc i < length segs \<longrightarrow> \<not> sublist old (segs ! i @ butlast old)) \<and>
           \<not> sublist old (last segs)"
proof (intro exI conjI)
  show "segments old cur \<noteq> []" by (rule segments_nonempty)
  show "cur = join old (segments old cur)" by (simp add: join_segments)
  show "py_replace old new cur = join new (segments old cur)"
    using assms by (simp add: py_replace_def replace_from_join)
  show "\<forall>i. Suc i < length (segments old cur) \<longrightarrow> \<not> sublist old (segments old cur ! i @ butlast old)"
    using segments_leftmost [of old cur] assms by blast
  show "\<not> sublist old (last (segments old cur))"
    using segments_leftmost [of old cur] assms by blast
qed

lemma parse_log_nonempty_lines: "x \<in> set (parse_log s p) \<Longrightarrow> x \<noteq> []"
  by (auto simp: parse_log_def split: sum.splits exn.splits)

lemma dict_of_pairs_keys: "fst ` set (dict_of_pairs ps) = fst ` set ps"
proof -
  have "set (map fst (dict_of_pairs ps)) = set (map fst ps)"
    unfolding dict_of_pairs_def keys_foldl_dict_set by simp
  then show ?thesis by simp
qed

lemma create_replacement_map_keys:
  assumes "create_replacement_map s p q = Some rules"
  shows "rules \<noteq> []" and "\<forall>(old, new) \<in> set rules. old \<noteq> []"
proof -
  let ?o = "parse_log s p" and ?t = "parse_log s q"
  from assms have ne: "?o \<noteq> []" "?t \<noteq> []" and r: "rules = dict_of_pairs (zip ?o ?t)"
    by (auto simp: create_replacement_map_def Let_def split: if_splits)
  have k: "fst ` set rules = fst ` set (zip ?o ?t)" unfolding r by (rule dict_of_pairs_keys)
  from ne have "zip ?o ?t \<noteq> []" by (cases ?o; cases ?t) auto
  then have "fst ` set (zip ?o ?t) \<noteq> {}" by simp
  with k show "rules \<noteq> []" by auto
  show "\<forall>(old, new) \<in> set rules. old \<noteq> []"
  proof (clarify)
    fix new assume "([], new) \<in> set rules"
    then have "[] \<in> fst ` set rules" by force
    with k have "[] \<in> fst ` set (zip ?o ?t)" by simp
    then have "[] \<in> set ?o" by (auto dest: set_zip_leftD)
    then show False using parse_log_nonempty_lines by blast
  qed
qed

lemmas run_defs = parse_log_def read_text_def py_strip_def py_isspace_def u_def
  create_replacement_map_def dict_of_pairs_def dict_set_def py_replace_def write_text_def



section \<open>Properties of the scan\<close>

lemma re_search_iff: "re_search cls s \<longleftrightarrow> (\<exists>c \<in> set s. cls c)"
  by (simp add: re_search_def list_ex_iff)

lemma split_nl_nonempty: "split_nl s \<noteq> []"
  by (induction s) (auto split: list.splits)

lemma split_nl_no_newline: "l \<in> set (split_nl s) \<Longrightarrow> 10 \<notin> set l"
  by (induction s arbitrary: l) (auto split: list.splits if_splits)

lemma join_split_nl: "join [10] (split_nl s) = s"
proof (induction s)
  case Nil
  then show ?case by simp
next
  case (Cons c cs)
  obtain l ls where sp: "split_nl cs = l # ls"
    using split_nl_nonempty [of cs] by (cases "split_nl cs") auto
  show ?case
  proof (cases "c = 10")
    case True
    then show ?thesis using Cons sp by simp
  next
    case False
    have "join [10] ((c # l) # ls) = c # join [10] (l # ls)" by (rule join_Cons_Cons)
    then show ?thesis using False Cons sp by simp
  qed
qed

lemma match_close_found:
  "41 \<notin> set mid \<Longrightarrow> 10 \<notin> set mid \<Longrightarrow> match_close (mid @ 41 # rest) = Some (Suc (length mid))"
  by (induction mid) auto

lemma match_close_Some:
  "match_close cs = Some n \<Longrightarrow>
     \<exists>mid rest. cs = mid @ 41 # rest \<and> 41 \<notin> set mid \<and> 10 \<notin> set mid \<and> n = Suc (length mid)"
proof (induction cs arbitrary: n)
  case Nil
  then show ?case by simp
next
  case (Cons c cs)
  show ?case
  proof (cases "c = 41")
    case True
    with Cons.prems have "n = 1" by simp
    with True have "c # cs = [] @ 41 # cs \<and> 41 \<notin> set [] \<and> 10 \<notin> set [] \<and> n = Suc (length ([]::ustring))"
      by simp
    then show ?thesis by blast
  next
    case False
    with Cons.prems have c10: "c \<noteq> 10" by (auto split: if_splits)
    with False Cons.prems obtain m where m: "match_close cs = Some m" and n: "n = Suc m"
      by auto
    from Cons.IH [OF m] obtain mid rest where
      "cs = mid @ 41 # rest" "41 \<notin> set mid" "10 \<notin> set mid" "m = Suc (length mid)" by blast
    with False c10 n have "c # cs = (c # mid) @ 41 # rest \<and> 41 \<notin> set (c # mid) \<and>
        10 \<notin> set (c # mid) \<and> n = Suc (length (c # mid))" by simp
    then show ?thesis by blast
  qed
qed

lemma re_sub_parens_prefix: "40 \<notin> set pre \<Longrightarrow> re_sub_parens (pre @ s) = pre @ re_sub_parens s"
  by (induction pre) auto

lemma re_sub_parens_span:
  assumes "40 \<notin> set pre" and "41 \<notin> set mid" and "10 \<notin> set mid"
  shows "re_sub_parens (pre @ 40 # mid @ 41 # rest) = pre @ re_sub_parens rest"
proof -
  have "re_sub_parens (40 # mid @ 41 # rest) = re_sub_parens (drop (Suc (length mid)) (mid @ 41 # rest))"
    using match_close_found [OF assms(2,3), of rest] by simp
  also have "\<dots> = re_sub_parens rest" by simp
  finally show ?thesis using re_sub_parens_prefix [OF assms(1)] by simp
qed

lemma re_sub_parens_no_span:
  "\<not> (\<exists>pre mid rest. l = pre @ 40 # mid @ 41 # rest \<and> 10 \<notin> set mid) \<Longrightarrow> re_sub_parens l = l"
proof (induction l)
  case Nil
  then show ?case by simp
next
  case (Cons c cs)
  have tl: "\<not> (\<exists>pre mid rest. cs = pre @ 40 # mid @ 41 # rest \<and> 10 \<notin> set mid)"
  proof
    assume "\<exists>pre mid rest. cs = pre @ 40 # mid @ 41 # rest \<and> 10 \<notin> set mid"
    then obtain pre mid rest where "cs = pre @ 40 # mid @ 41 # rest" "10 \<notin> set mid" by blast
    then have "c # cs = (c # pre) @ 40 # mid @ 41 # rest \<and> 10 \<notin> set mid" by simp
    with Cons.prems show False by blast
  qed
  have ih: "re_sub_parens cs = cs" using Cons.IH tl by blast
  show ?case
  proof (cases "c = 40")
    case False
    then show ?thesis using ih by simp
  next
    case True
    have "match_close cs = None"
    proof (rule ccontr)
      assume "match_close cs \<noteq> None"
      then obtain n where "match_close cs = Some n" by auto
      from match_close_Some [OF this] obtain mid rest where
        "cs = mid @ 41 # rest" "10 \<notin> set mid" by blast
      with True have "c # cs = [] @ 40 # mid @ 41 # rest \<and> 10 \<notin> set mid" by simp
      with Cons.prems show False by blast
    qed
    then show ?thesis using True ih by simp
  qed
qed

lemma scan_lines_filter:
  "scan_lines ls (logged, found) =
     (logged @ concat (map (\<lambda>l. py_strip l @ [10])
                 (filter (\<lambda>l. re_search japanese_pattern (re_sub_parens l) \<or>
                               re_search chinese_pattern (re_sub_parens l)) ls)),
      found \<or> (\<exists>l \<in> set ls. re_search japanese_pattern (re_sub_parens l) \<or>
                               re_search chinese_pattern (re_sub_parens l)))"
  by (induction ls arbitrary: logged found) (auto simp: Let_def)

lemma in_script_ranges:
  "(\<exists>c \<in> set s. japanese_pattern c) \<or> (\<exists>c \<in> set s. chinese_pattern c) \<longleftrightarrow>
   (\<exists>c \<in> set s. (0x3040 \<le> c \<and> c \<le> 0x309F) \<or> (0x30A0 \<le> c \<and> c \<le> 0x30FF) \<or>
                  (0x4E00 \<le> c \<and> c \<le> 0x9FFF))"
  unfolding japanese_pattern_def chinese_pattern_def by blast

lemma check_languages_writes:
  assumes "s file_path = Some (File original)"
    and "load_replacements cfg = Inr (JObject replacements)"
    and "apply_custom replacements original = Inr content"
  shows "check_languages cfg doc_fault log_fault s file_path log_file =
           (case write_text doc_fault s file_path content of
              (s1, Some e) \<Rightarrow> (s1, ErrorOccurred e)
            | (s1, None) \<Rightarrow>
                (case write_text log_fault s1 log_file (fst (scan_lines (split_nl content) ([], False))) of
                   (s2, Some e) \<Rightarrow> (s2, ErrorOccurred e)
                 | (s2, None) \<Rightarrow>
                     (s2, if snd (scan_lines (split_nl content) ([], False)) then Finished else NoneFound)))"
proof -
  have ex: "path_exists s file_path" using assms(1) by (simp add: path_exists_def)
  have rd: "read_text s file_path = Inr original" using assms(1) by (simp add: read_text_def)
  obtain s1 e1 where w1: "write_text doc_fault s file_path content = (s1, e1)"
    by (cases "write_text doc_fault s file_path content")
  obtain logged found where sc: "scan_lines (split_nl content) ([], False) = (logged, found)"
    by (cases "scan_lines (split_nl content) ([], False)")
  obtain s2 e2 where w2: "write_text log_fault s1 log_file logged = (s2, e2)"
    by (cases "write_text log_fault s1 log_file logged")
  show ?thesis
    unfolding check_languages_def
    by (cases e1; cases e2) (simp_all add: ex rd assms(2,3) w1 sc w2)
qed

lemma check_languages_ok:
  assumes "s file_path = Some (File original)"
    and "load_replacements cfg = Inr (JObject replacements)"
    and "apply_custom replacements original = Inr content"
  shows "check_languages cfg NoFault NoFault s file_path log_file =
           (s(file_path \<mapsto> File content,
              log_file \<mapsto> File (fst (scan_lines (split_nl content) ([], False)))),
            if snd (scan_lines (split_nl content) ([], False)) then Finished else NoneFound)"
  using assms
    check_languages_writes [where s = s and file_path = file_path and original = original
      and cfg = cfg and replacements = replacements and content = content
      and doc_fault = NoFault and log_fault = NoFault and log_file = log_file]
  by (simp add: write_text_def)

lemma check_languages_missing:
  "\<not> path_exists s file_path \<Longrightarrow>
     check_languages cfg doc_fault log_fault s file_path log_file = (s, FileNotFound)"
  by (simp add: check_languages_def)

lemma scan_lines_text:
  "fst (scan_lines ls ([], False)) =
     concat (map (\<lambda>l. py_strip l @ [10])
       (filter (\<lambda>l. \<exists>c \<in> set (re_sub_parens l).
                  (0x3040 \<le> c \<and> c \<le> 0x309F) \<or> (0x30A0 \<le> c \<and> c \<le> 0x30FF) \<or>
                  (0x4E00 \<le> c \<and> c \<le> 0x9FFF)) ls))"
  unfolding scan_lines_filter re_search_iff in_script_ranges by simp

lemma scan_lines_found:
  "snd (scan_lines ls ([], False)) \<longleftrightarrow>
     (\<exists>l \<in> set ls. \<exists>c \<in> set (re_sub_parens l).
        (0x3040 \<le> c \<and> c \<le> 0x309F) \<or> (0x30A0 \<le> c \<and> c \<le> 0x30FF) \<or>
        (0x4E00 \<le> c \<and> c \<le> 0x9FFF))"
  unfolding scan_lines_filter re_search_iff in_script_ranges by simp

lemma scan_lines_single:
  "snd (scan_lines [line] ([], False)) \<longleftrightarrow>
     re_search japanese_pattern (re_sub_parens line) \<or> re_search chinese_pattern (re_sub_parens line)"
  by (simp add: Let_def)

lemma scan_lines_flagged:
  "fst (scan_lines ls ([], False)) =
     concat (map (\<lambda>line. py_strip line @ [10])
       (filter (\<lambda>line. snd (scan_lines [line] ([], False))) ls))"
  unfolding scan_lines_single scan_lines_filter by simp

lemma scan_lines_none:
  "\<not> snd (scan_lines ls ([], False)) \<Longrightarrow> fst (scan_lines ls ([], False)) = []"
  unfolding scan_lines_filter by (simp add: filter_empty_conv)

lemma apply_custom_fixed:
  "(\<forall>old n. (old, JStr n) \<in> set replacements \<longrightarrow> py_replace old (n @ [32]) t = t) \<Longrightarrow>
     apply_custom replacements t = Inr t \<or> apply_custom replacements t = Inl TypeError"
proof (induction replacements)
  case Nil
  then show ?case by simp
next
  case (Cons r rs)
  obtain old new where r: "r = (old, new)" by (cases r)
  show ?case
  proof (cases new)
    case JNonStr
    then show ?thesis by (simp add: r)
  next
    case (JStr n)
    have "py_replace old (n @ [32]) t = t" using Cons.prems r JStr by simp
    moreover have "apply_custom rs t = Inr t \<or> apply_custom rs t = Inl TypeError"
      using Cons.IH Cons.prems by simp
    ultimately show ?thesis by (simp add: r JStr)
  qed
qed

lemma write_text_other:
  "p \<noteq> q \<Longrightarrow> fst (write_text flt s p t) q = s q"
  by (cases flt) (simp_all add: write_text_def)

lemma check_languages_log_only:
  assumes "file_path \<noteq> log_file"
    and "s file_path = Some (File original)"
    and "load_replacements cfg = Inr (JObject replacements)"
    and "apply_custom replacements original = Inr content"
  shows "fst (check_languages cfg NoFault log_fault s file_path log_file) file_path =
           Some (File content)"
proof -
  note w = check_languages_writes [where s = s and file_path = file_path, OF assms(2,3,4)]
  let ?s1 = "s(file_path \<mapsto> File content)"
  let ?logged = "fst (scan_lines (split_nl content) ([], False))"
  obtain s2 e2 where w2: "write_text log_fault ?s1 log_file ?logged = (s2, e2)"
    by (cases "write_text log_fault ?s1 log_file ?logged")
  have "s2 file_path = ?s1 file_path"
    using write_text_other [of log_file file_path log_fault ?s1 ?logged] assms(1) w2 by simp
  then have s2: "s2 file_path = Some (File content)" by simp
  have w1: "write_text NoFault s file_path content = (?s1, None)" by (simp add: write_text_def)
  show ?thesis unfolding w w1 by (cases e2) (simp_all add: w2 s2)
qed

lemma check_languages_unreached:
  assumes "\<forall>original replacements content.
             \<not> (s file_path = Some (File original) \<and>
                load_replacements cfg = Inr (JObject replacements) \<and>
                apply_custom replacements original = Inr content)"
  shows "fst (check_languages cfg doc_fault log_fault s file_path log_file) = s"
proof (cases "s file_path")
  case None
  then show ?thesis by (simp add: check_languages_def path_exists_def)
next
  case (Some nd)
  then have ex: "path_exists s file_path" by (simp add: path_exists_def)
  show ?thesis
  proof (cases nd)
    case Undecodable
    with Some show ?thesis by (simp add: check_languages_def ex read_text_def)
  next
    case Inaccessible
    with Some show ?thesis by (simp add: check_languages_def ex read_text_def)
  next
    case (File t)
    with Some have st: "s file_path = Some (File t)" by simp
    then have rd: "read_text s file_path = Inr t" by (simp add: read_text_def)
    show ?thesis
    proof (cases "load_replacements cfg")
      case (Inl e)
      then show ?thesis by (simp add: check_languages_def ex rd)
    next
      case (Inr j)
      show ?thesis
      proof (cases j)
        case JNonObject
        with Inr show ?thesis by (simp add: check_languages_def ex rd)
      next
        case (JObject reps)
        with Inr have ld: "load_replacements cfg = Inr (JObject reps)" by simp
        show ?thesis
        proof (cases "apply_custom reps t")
          case (Inl e)
          then show ?thesis by (simp add: check_languages_def ex rd ld)
        next
          case (Inr content)
          with st ld assms show ?thesis by blast
        qed
      qed
    qed
  qed
qed

lemma apply_custom_string_values:
  "apply_custom replacements t = Inr t' \<Longrightarrow> (old, new) \<in> set replacements \<Longrightarrow> new \<noteq> JNonStr"
proof (induction replacements arbitrary: t)
  case Nil
  then show ?case by simp
next
  case (Cons r rs)
  obtain o' n' where r: "r = (o', n')" by (cases r)
  from Cons.prems(1) r obtain n where n: "n' = JStr n"
    and rest: "apply_custom rs (py_replace o' (n @ [32]) t) = Inr t'"
    by (cases n') auto
  show ?case
  proof (cases "(old, new) = r")
    case True
    with r n show ?thesis by simp
  next
    case False
    with Cons.prems(2) have "(old, new) \<in> set rs" by simp
    with Cons.IH [OF rest] show ?thesis by simp
  qed
qed

lemma apply_custom_strings_total:
  "(\<forall>old new. (old, new) \<in> set replacements \<longrightarrow> new \<noteq> JNonStr) \<Longrightarrow>
     apply_custom replacements x \<noteq> Inl e"
proof (induction replacements arbitrary: x)
  case Nil
  then show ?case by simp
next
  case (Cons r rs)
  obtain old new where r: "r = (old, new)" by (cases r)
  from Cons.prems r obtain n where n: "new = JStr n" by (cases new) auto
  have "apply_custom rs (py_replace old (n @ [32]) x) \<noteq> Inl e"
    using Cons.IH Cons.prems by simp
  then show ?case by (simp add: r n)
qed

lemma apply_custom_never_raises:
  "apply_custom replacements t = Inr t' \<Longrightarrow> apply_custom replacements x \<noteq> Inl e"
  using apply_custom_string_values apply_custom_strings_total by blast

section \<open>The log reader\<close>

text \<open>
  Claim C8. For every path, \<^verbatim>\<open>parse_log\<close> returns the lines of the file, each
  with the whitespace at both ends removed, without the lines that are empty after
  that, in the order of the file. When the file does not exist or cannot be read the
  result is the empty list. The function is total: no exception reaches the caller.
  Every line returned is non-empty and neither starts nor ends with whitespace. The
  lines of a file are the pieces of its text that end with a line feed, and the rest
  behind the last line feed if there is one: together they make up the text.
\<close>

theorem parse_log_lines:
  "(\<forall>t. s file_path = Some (File t) \<longrightarrow>
       parse_log s file_path = filter (\<lambda>x. x \<noteq> []) (map py_strip (file_lines t))) \<and>
   ((\<forall>t. s file_path \<noteq> Some (File t)) \<longrightarrow> parse_log s file_path = []) \<and>
   (\<forall>x \<in> set (parse_log s file_path).
       x \<noteq> [] \<and> \<not> py_isspace (hd x) \<and> \<not> py_isspace (last x)) \<and>
   (\<forall>t. concat (file_lines t) = t \<and>
        (\<forall>l \<in> set (file_lines t). l \<noteq> [] \<and> 10 \<notin> set (butlast l)) \<and>
        (\<forall>l \<in> set (butlast (file_lines t)). last l = 10))"
proof (intro conjI allI impI ballI)
  fix t assume "s file_path = Some (File t)"
  then show "parse_log s file_path = filter (\<lambda>x. x \<noteq> []) (map py_strip (file_lines t))"
    by (simp add: parse_log_def read_text_def parse_log_filter_map)
next
  assume "\<forall>t. s file_path \<noteq> Some (File t)"
  then show "parse_log s file_path = []"
    by (auto simp: parse_log_def read_text_def split: option.splits node.splits)
next
  fix x assume "x \<in> set (parse_log s file_path)"
  then obtain l where x: "x = py_strip l" and ne: "py_strip l \<noteq> []"
    by (auto simp: parse_log_def read_text_def split: option.splits node.splits sum.splits exn.splits)
  show "x \<noteq> []" using x ne by simp
  show "\<not> py_isspace (hd x)" using x py_strip_ends(1) [OF ne] by simp
  show "\<not> py_isspace (last x)" using x py_strip_ends(2) [OF ne] by simp
next
  fix t show "concat (file_lines t) = t" by (rule concat_file_lines)
next
  fix t l assume "l \<in> set (file_lines t)"
  then show "l \<noteq> []" by (rule file_lines_nonempty)
next
  fix t l assume "l \<in> set (file_lines t)"
  then show "10 \<notin> set (butlast l)" by (rule file_lines_butlast)
next
  fix t l assume "l \<in> set (butlast (file_lines t))"
  then show "last l = 10" by (rule file_lines_terminated)
qed

theorem parse_log_lines_witness:
  "parse_log (Map.empty(''findings.log'' \<mapsto> File (u ''  a b '' @ [10, 32, 10] @ u ''c''))) ''findings.log''
     = [u ''a b'', u ''c''] \<and>
   parse_log Map.empty ''findings.log'' = [] \<and>
   parse_log (Map.empty(''findings.log'' \<mapsto> Undecodable)) ''findings.log'' = []"
proof -
  let ?t = "u ''  a b '' @ [10, 32, 10] @ u ''c''"
  let ?s = "Map.empty(''findings.log'' \<mapsto> File ?t)"
  have "parse_log ?s ''findings.log'' = filter (\<lambda>x. x \<noteq> []) (map py_strip (file_lines ?t))"
    by (rule parse_log_lines [THEN conjunct1, rule_format]) simp
  also have "\<dots> = [u ''a b'', u ''c'']"
    by (simp add: py_strip_def py_isspace_def u_def)
  finally have 1: "parse_log ?s ''findings.log'' = [u ''a b'', u ''c'']" .
  have 2: "parse_log Map.empty ''findings.log'' = []"
    by (rule parse_log_lines [THEN conjunct2, THEN conjunct1, rule_format]) simp
  have 3: "parse_log (Map.empty(''findings.log'' \<mapsto> Undecodable)) ''findings.log'' = []"
    by (rule parse_log_lines [THEN conjunct2, THEN conjunct1, rule_format]) simp
  from 1 2 3 show ?thesis by (intro conjI)
qed

section \<open>The pair builder\<close>

text \<open>
  Claim C1. \<^verbatim>\<open>create_replacement_map\<close> returns \<^verbatim>\<open>None\<close> when either parsed
  log is empty. Otherwise it returns the dictionary of the pairs (i-th finding, i-th
  corrected line) for the positions below the length of the shorter list: its keys are
  the findings at these positions in the order of their first occurrence, and the
  value stored under a finding is the corrected line of its last occurrence, so a
  later pair overwrites an earlier pair with the same finding.
\<close>

theorem create_replacement_map_pairs:
  assumes "original_lines = parse_log s proof_log_path"
    and "translated_lines = parse_log s translated_log_path"
    and "n = min (length original_lines) (length translated_lines)"
  shows "(original_lines = [] \<or> translated_lines = [] \<longrightarrow>
            create_replacement_map s proof_log_path translated_log_path = None) \<and>
         (original_lines \<noteq> [] \<and> translated_lines \<noteq> [] \<longrightarrow>
            (\<exists>d. create_replacement_map s proof_log_path translated_log_path = Some d \<and>
                 map fst d = rev (remdups (rev (take n original_lines))) \<and>
                 (\<forall>i<n. (\<forall>j. i < j \<and> j < n \<longrightarrow> original_lines ! j \<noteq> original_lines ! i) \<longrightarrow>
                        map_of d (original_lines ! i) = Some (translated_lines ! i))))"
proof (intro conjI impI)
  assume "original_lines = [] \<or> translated_lines = []"
  then show "create_replacement_map s proof_log_path translated_log_path = None"
    using assms by (auto simp: create_replacement_map_def)
next
  assume ne: "original_lines \<noteq> [] \<and> translated_lines \<noteq> []"
  let ?ps = "zip original_lines translated_lines"
  let ?d = "dict_of_pairs ?ps"
  have len: "length ?ps = n" using assms(3) by simp
  have res: "create_replacement_map s proof_log_path translated_log_path = Some ?d"
    using ne assms by (simp add: create_replacement_map_def Let_def)
  have keys: "map fst ?d = rev (remdups (rev (take n original_lines)))"
    unfolding dict_of_pairs_def keys_foldl_dict_set map_fst_zip_take assms(3) ..
  have "map_of ?d = map_of (rev ?ps)"
    unfolding dict_of_pairs_def map_of_foldl_dict_set by simp
  have vals: "\<forall>i<n. (\<forall>j. i < j \<and> j < n \<longrightarrow> original_lines ! j \<noteq> original_lines ! i) \<longrightarrow>
                  map_of ?d (original_lines ! i) = Some (translated_lines ! i)"
  proof (intro allI impI)
    fix i assume i: "i < n"
      and last: "\<forall>j. i < j \<and> j < n \<longrightarrow> original_lines ! j \<noteq> original_lines ! i"
    have "\<forall>j. i < j \<and> j < length ?ps \<longrightarrow> fst (?ps ! j) \<noteq> fst (?ps ! i)"
      using last i len by (auto simp: assms(3))
    then have "map_of (rev ?ps) (fst (?ps ! i)) = Some (snd (?ps ! i))"
      using map_of_rev_last_wins [of i ?ps] i len by blast
    then show "map_of ?d (original_lines ! i) = Some (translated_lines ! i)"
      using i \<open>map_of ?d = map_of (rev ?ps)\<close> by (simp add: assms(3))
  qed
  from res keys vals
  show "\<exists>d. create_replacement_map s proof_log_path translated_log_path = Some d \<and>
            map fst d = rev (remdups (rev (take n original_lines))) \<and>
            (\<forall>i<n. (\<forall>j. i < j \<and> j < n \<longrightarrow> original_lines ! j \<noteq> original_lines ! i) \<longrightarrow>
                   map_of d (original_lines ! i) = Some (translated_lines ! i))"
    by blast
qed

theorem create_replacement_map_pairs_witness:
  "(\<exists>d. create_replacement_map example_logs ''proof.log'' ''translated.log'' = Some d \<and>
        map fst d = [u ''A'', u ''B''] \<and>
        map_of d (u ''A'') = Some (u ''3'') \<and> map_of d (u ''B'') = Some (u ''2'')) \<and>
   create_replacement_map example_logs ''proof.log'' ''missing.log'' = None"
proof -
  have o: "parse_log example_logs ''proof.log'' = [u ''A'', u ''B'', u ''A'', u ''C'']"
    by (simp add: example_logs_def parse_log_def read_text_def py_strip_def py_isspace_def u_def)
  have t: "parse_log example_logs ''translated.log'' = [u ''1'', u ''2'', u ''3'']"
    by (simp add: example_logs_def parse_log_def read_text_def py_strip_def py_isspace_def u_def)
  have m: "parse_log example_logs ''missing.log'' = []"
    by (simp add: example_logs_def parse_log_def read_text_def)
  have n: "(3::nat) = min (length [u ''A'', u ''B'', u ''A'', u ''C'']) (length [u ''1'', u ''2'', u ''3''])"
    by simp
  note spec = create_replacement_map_pairs [OF o [symmetric] t [symmetric] n]
  from spec [THEN conjunct2, rule_format]
  obtain d where d: "create_replacement_map example_logs ''proof.log'' ''translated.log'' = Some d"
    and keys: "map fst d = rev (remdups (rev (take 3 [u ''A'', u ''B'', u ''A'', u ''C''])))"
    and vals: "\<forall>i<3. (\<forall>j. i < j \<and> j < 3 \<longrightarrow>
                  [u ''A'', u ''B'', u ''A'', u ''C''] ! j \<noteq> [u ''A'', u ''B'', u ''A'', u ''C''] ! i) \<longrightarrow>
               map_of d ([u ''A'', u ''B'', u ''A'', u ''C''] ! i) = Some ([u ''1'', u ''2'', u ''3''] ! i)"
    by blast
  have k: "map fst d = [u ''A'', u ''B'']" using keys by (simp add: u_def)
  let ?os = "[u ''A'', u ''B'', u ''A'', u ''C'']"
  let ?ts = "[u ''1'', u ''2'', u ''3'']"
  have c2: "\<forall>j. (2::nat) < j \<and> j < 3 \<longrightarrow> ?os ! j \<noteq> ?os ! 2"
    by auto
  have "(2::nat) < 3" by simp
  with vals c2 have "map_of d (?os ! 2) = Some (?ts ! 2)" by blast
  then have a: "map_of d (u ''A'') = Some (u ''3'')" by simp
  have c1: "\<forall>j. (1::nat) < j \<and> j < 3 \<longrightarrow> ?os ! j \<noteq> ?os ! 1"
  proof (intro allI impI)
    fix j :: nat assume "1 < j \<and> j < 3"
    then have "j = 2" by arith
    then show "?os ! j \<noteq> ?os ! 1" by (simp add: u_def)
  qed
  have "(1::nat) < 3" by simp
  with vals c1 have "map_of d (?os ! 1) = Some (?ts ! 1)" by blast
  then have b: "map_of d (u ''B'') = Some (u ''2'')" by simp
  have none: "create_replacement_map example_logs ''proof.log'' ''missing.log'' = None"
    using create_replacement_map_pairs [OF o [symmetric] m [symmetric] refl, THEN conjunct1] by simp
  from d k a b none show ?thesis by simp
qed

section \<open>The substitution engine\<close>



text \<open>
  The side condition on the target is needed: the handler's own file holds the log
  records, not what the caller had stored there.
\<close>

lemma log_handler_replaces_its_file:
  "with_fix_script_log s records ''fix_script.log'' = Some (File records)"
  by (simp add: with_fix_script_log_def)

text \<open>
  Claim C3. The rules are applied one after the other, in the order of the map, each to
  the text the rules before it have produced. For the target text \<^verbatim>\<open>foo\<close> and the
  map \<^verbatim>\<open>{foo: bar, bar: baz}\<close>, which the pair builder makes from the logs in this
  order, the result is \<^verbatim>\<open>baz\<close>; with the two rules in the other order it is
  \<^verbatim>\<open>bar\<close>.
\<close>

theorem substitution_cascades:
  "apply_rules (rs1 @ rs2) st = apply_rules rs2 (apply_rules rs1 st) \<and>
   create_replacement_map example_cascade ''proof.log'' ''translated.log'' =
     Some [(u ''foo'', u ''bar''), (u ''bar'', u ''baz'')] \<and>
   apply_rules [(u ''foo'', u ''bar''), (u ''bar'', u ''baz'')] (u ''foo'', 0) = (u ''baz'', 2) \<and>
   main NoFault example_cascade ''proof.log'' ''translated.log'' ''target.txt'' =
     (example_cascade(''target.txt'' \<mapsto> File (u ''baz'')), Modified 2) \<and>
   apply_rules [(u ''bar'', u ''baz''), (u ''foo'', u ''bar'')] (u ''foo'', 0) = (u ''bar'', 1)"
proof (intro conjI)
  show "apply_rules (rs1 @ rs2) st = apply_rules rs2 (apply_rules rs1 st)"
    by (rule apply_rules_append)
  show m: "create_replacement_map example_cascade ''proof.log'' ''translated.log'' =
          Some [(u ''foo'', u ''bar''), (u ''bar'', u ''baz'')]"
    by (simp add: example_cascade_def run_defs)
  show a: "apply_rules [(u ''foo'', u ''bar''), (u ''bar'', u ''baz'')] (u ''foo'', 0) = (u ''baz'', 2)"
    by (simp add: u_def py_replace_def)
  have t: "read_text example_cascade ''target.txt'' = Inr (u ''foo'')"
    by (simp add: example_cascade_def read_text_def)
  have ne: "u ''foo'' \<noteq> u ''baz''" by (simp add: u_def)
  show "main NoFault example_cascade ''proof.log'' ''translated.log'' ''target.txt'' =
          (example_cascade(''target.txt'' \<mapsto> File (u ''baz'')), Modified 2)"
    unfolding main_def m by (simp add: t a ne write_text_def del: apply_rules.simps)
  show "apply_rules [(u ''bar'', u ''baz''), (u ''foo'', u ''bar'')] (u ''foo'', 0) = (u ''bar'', 1)"
    by (simp add: u_def py_replace_def)
qed

text \<open>
  Claim C7. For a map built by the pair builder, \<^verbatim>\<open>modified_count\<close> is the number
  of rules whose pattern occurs in the text as it is when the rule is processed. Such
  a rule adds one to the count, however often the pattern occurs, and replaces the
  text by the result of \<^verbatim>\<open>replace\<close>; a rule whose pattern does not occur changes
  neither. \<^verbatim>\<open>replace\<close> cuts the text at the occurrences of the pattern that a
  search from left to right finds, each search resuming behind the occurrence before,
  and puts the replacement between the pieces: no occurrence starts inside a piece
  before the cut that ends it, and none is left in the last piece. The count
  reported by \<^verbatim>\<open>main\<close> is this number.
\<close>

theorem modified_count_per_firing_rule:
  assumes "create_replacement_map s proof_log translated_log = Some rules"
  shows "snd (apply_rules rules (content, 0)) =
           length (filter (\<lambda>i. sublist (fst (rules ! i)) (fst (apply_rules (take i rules) (content, 0))))
                    [0..<length rules]) \<and>
         (\<forall>i<length rules.
            apply_rules (take (Suc i) rules) (content, 0) =
              (if sublist (fst (rules ! i)) (fst (apply_rules (take i rules) (content, 0)))
               then (py_replace (fst (rules ! i)) (snd (rules ! i))
                       (fst (apply_rules (take i rules) (content, 0))),
                     snd (apply_rules (take i rules) (content, 0)) + 1)
               else apply_rules (take i rules) (content, 0))) \<and>
         (\<forall>i<length rules. \<forall>cur.
            \<exists>segs. segs \<noteq> [] \<and> cur = join (fst (rules ! i)) segs \<and>
              py_replace (fst (rules ! i)) (snd (rules ! i)) cur = join (snd (rules ! i)) segs \<and>
              (\<forall>k. Suc k < length segs \<longrightarrow>
                   \<not> sublist (fst (rules ! i)) (segs ! k @ butlast (fst (rules ! i)))) \<and>
              \<not> sublist (fst (rules ! i)) (last segs)) \<and>
         (s target_file = Some (File content) \<longrightarrow>
            snd (main target_fault s proof_log translated_log target_file)
              \<in> {NoChanges (snd (apply_rules rules (content, 0))),
                  Modified (snd (apply_rules rules (content, 0))),
                  WriteError (snd (apply_rules rules (content, 0)))})"
proof (intro conjI allI impI)
  show "snd (apply_rules rules (content, 0)) =
          length (filter (\<lambda>i. sublist (fst (rules ! i)) (fst (apply_rules (take i rules) (content, 0))))
                   [0..<length rules])"
    using apply_rules_count [of rules content 0] by simp
next
  fix i assume "i < length rules"
  then show "apply_rules (take (Suc i) rules) (content, 0) =
              (if sublist (fst (rules ! i)) (fst (apply_rules (take i rules) (content, 0)))
               then (py_replace (fst (rules ! i)) (snd (rules ! i))
                       (fst (apply_rules (take i rules) (content, 0))),
                     snd (apply_rules (take i rules) (content, 0)) + 1)
               else apply_rules (take i rules) (content, 0))"
    by (rule apply_rules_step)
next
  fix i cur assume i: "i < length rules"
  obtain old new where p: "rules ! i = (old, new)" by (cases "rules ! i")
  from i have "rules ! i \<in> set rules" by (rule nth_mem)
  with p have "(old, new) \<in> set rules" by simp
  then have "old \<noteq> []" using create_replacement_map_keys(2) [OF assms] by blast
  then have "fst (rules ! i) \<noteq> []" by (simp add: p)
  then show "\<exists>segs. segs \<noteq> [] \<and> cur = join (fst (rules ! i)) segs \<and>
              py_replace (fst (rules ! i)) (snd (rules ! i)) cur = join (snd (rules ! i)) segs \<and>
              (\<forall>k. Suc k < length segs \<longrightarrow>
                   \<not> sublist (fst (rules ! i)) (segs ! k @ butlast (fst (rules ! i)))) \<and>
              \<not> sublist (fst (rules ! i)) (last segs)"
    by (rule py_replace_segments)
next
  assume t: "s target_file = Some (File content)"
  have ne: "rules \<noteq> []" using create_replacement_map_keys(1) [OF assms] .
  have rd: "read_text s target_file = Inr content" using t by (simp add: read_text_def)
  obtain c n where r: "apply_rules rules (content, 0) = (c, n)"
    by (cases "apply_rules rules (content, 0)")
  show "snd (main target_fault s proof_log translated_log target_file)
              \<in> {NoChanges (snd (apply_rules rules (content, 0))),
                  Modified (snd (apply_rules rules (content, 0))),
                  WriteError (snd (apply_rules rules (content, 0)))}"
    unfolding main_def assms r
    by (cases "write_text target_fault s target_file c")
       (auto simp: ne rd r split: option.splits)
qed

theorem modified_count_per_firing_rule_witness:
  "create_replacement_map example_count ''proof.log'' ''translated.log'' =
     Some [(u ''aa'', u ''b''), (u ''zz'', u ''y''), (u ''b'', u ''c'')] \<and>
   apply_rules [(u ''aa'', u ''b'')] (u ''aaaaa'', 0) = (u ''bba'', 1) \<and>
   apply_rules [(u ''aa'', u ''b''), (u ''zz'', u ''y'')] (u ''aaaaa'', 0) = (u ''bba'', 1) \<and>
   snd (main NoFault example_count ''proof.log'' ''translated.log'' ''target.txt'') = Modified 2"
proof -
  let ?rules = "[(u ''aa'', u ''b''), (u ''zz'', u ''y''), (u ''b'', u ''c'')]"
  have m: "create_replacement_map example_count ''proof.log'' ''translated.log'' = Some ?rules"
    by (simp add: example_count_def run_defs)
  note spec = modified_count_per_firing_rule [OF m, of "u ''aaaaa''" "''target.txt''" NoFault]
  have a0: "apply_rules (take 0 ?rules) (u ''aaaaa'', 0) = (u ''aaaaa'', 0)" by simp
  have in0: "sublist (u ''aa'') (u ''aaaaa'')"
    unfolding py_in_sublist [symmetric] by (simp add: u_def)
  have r0: "py_replace (u ''aa'') (u ''b'') (u ''aaaaa'') = u ''bba''"
    by (simp add: u_def py_replace_def)
  have "(0::nat) < length ?rules" by simp
  from spec [THEN conjunct2, THEN conjunct1, rule_format, OF this]
  have "apply_rules (take (Suc 0) ?rules) (u ''aaaaa'', 0) = (u ''bba'', 1)"
    unfolding a0 by (simp add: in0 r0 del: apply_rules.simps)
  then have a1: "apply_rules [(u ''aa'', u ''b'')] (u ''aaaaa'', 0) = (u ''bba'', 1)"
    by (simp del: apply_rules.simps)
  have t1: "take 1 ?rules = [(u ''aa'', u ''b'')]" by simp
  have t2: "take (Suc 1) ?rules = [(u ''aa'', u ''b''), (u ''zz'', u ''y'')]" by simp
  have out1: "\<not> sublist (u ''zz'') (u ''bba'')"
    unfolding py_in_sublist [symmetric] by (simp add: u_def)
  have "(1::nat) < length ?rules" by simp
  from spec [THEN conjunct2, THEN conjunct1, rule_format, OF this]
  have a2: "apply_rules [(u ''aa'', u ''b''), (u ''zz'', u ''y'')] (u ''aaaaa'', 0) = (u ''bba'', 1)"
    unfolding t1 t2 a1 by (simp add: out1 del: apply_rules.simps)
  have cnt: "snd (apply_rules ?rules (u ''aaaaa'', 0)) = 2"
    by (simp add: u_def py_replace_def)
  have t: "example_count ''target.txt'' = Some (File (u ''aaaaa''))"
    by (simp add: example_count_def)
  have "snd (main NoFault example_count ''proof.log'' ''translated.log'' ''target.txt'')
          \<in> {NoChanges 2, Modified 2, WriteError 2}"
    using spec [THEN conjunct2, THEN conjunct2, THEN conjunct2, rule_format, OF t]
    unfolding cnt .
  moreover have "fst (apply_rules ?rules (u ''aaaaa'', 0)) \<noteq> u ''aaaaa''"
    by (simp add: u_def py_replace_def)
  then have "snd (main NoFault example_count ''proof.log'' ''translated.log'' ''target.txt'') \<noteq> NoChanges 2"
    unfolding main_def m
    by (simp add: read_text_def t write_text_def split: prod.splits del: apply_rules.simps) auto
  moreover have "snd (main NoFault example_count ''proof.log'' ''translated.log'' ''target.txt'') \<noteq> WriteError 2"
    unfolding main_def m
    by (simp add: read_text_def t write_text_def split: prod.splits del: apply_rules.simps)
  ultimately have "snd (main NoFault example_count ''proof.log'' ''translated.log'' ''target.txt'') = Modified 2"
    by blast
  with m a1 a2 show ?thesis by simp
qed

section \<open>The script detector\<close>

text \<open>
  Claim C4. In a run that reads the document, applies the configured substitutions and
  writes both files, the findings log holds exactly the lines of the rewritten
  document whose check view contains a character of U+3040..U+309F, U+30A0..U+30FF or
  U+4E00..U+9FFF, in document order, and the run reports findings exactly when there
  is such a line. The lines are the pieces of the text between line feeds. The
  check view of a line is the line without its parenthesized spans: a span runs from
  the first opening parenthesis to the first closing parenthesis behind it (so spans
  do not nest and are the shortest possible), the scan goes on behind the span, and a
  line without such a pair is its own check view. The line
  \<^verbatim>\<open>hello (...) world\<close> with the three ideographs inside the parentheses is
  not a finding; the same line without the parentheses is one.
\<close>

theorem finding_iff_script_outside_parentheses:
  assumes "s file_path = Some (File original)"
    and "load_replacements cfg = Inr (JObject replacements)"
    and "apply_custom replacements original = Inr content"
  shows "fst (check_languages cfg NoFault NoFault s file_path log_file) log_file =
           Some (File (concat (map (\<lambda>line. py_strip line @ [10])
             (filter (\<lambda>line. \<exists>c \<in> set (re_sub_parens line).
                        (0x3040 \<le> c \<and> c \<le> 0x309F) \<or> (0x30A0 \<le> c \<and> c \<le> 0x30FF) \<or>
                        (0x4E00 \<le> c \<and> c \<le> 0x9FFF))
                (split_nl content))))) \<and>
         snd (check_languages cfg NoFault NoFault s file_path log_file) =
           (if \<exists>line \<in> set (split_nl content). \<exists>c \<in> set (re_sub_parens line).
                 (0x3040 \<le> c \<and> c \<le> 0x309F) \<or> (0x30A0 \<le> c \<and> c \<le> 0x30FF) \<or>
                 (0x4E00 \<le> c \<and> c \<le> 0x9FFF)
            then Finished else NoneFound) \<and>
         join [10] (split_nl content) = content \<and>
         (\<forall>line \<in> set (split_nl content). 10 \<notin> set line) \<and>
         (\<forall>line. snd (scan_lines [line] ([], False)) \<longleftrightarrow>
            (\<exists>c \<in> set (re_sub_parens line).
               (0x3040 \<le> c \<and> c \<le> 0x309F) \<or> (0x30A0 \<le> c \<and> c \<le> 0x30FF) \<or>
               (0x4E00 \<le> c \<and> c \<le> 0x9FFF))) \<and>
         (\<forall>pre mid rest. 40 \<notin> set pre \<and> 41 \<notin> set mid \<and> 10 \<notin> set mid \<longrightarrow>
            re_sub_parens (pre @ 40 # mid @ 41 # rest) = pre @ re_sub_parens rest) \<and>
         (\<forall>line. \<not> (\<exists>pre mid rest. line = pre @ 40 # mid @ 41 # rest \<and> 10 \<notin> set mid) \<longrightarrow>
            re_sub_parens line = line) \<and>
         \<not> snd (scan_lines [u ''hello ('' @ [0x65E5, 0x672C, 0x8A9E] @ u '') world''] ([], False)) \<and>
         snd (scan_lines [u ''hello '' @ [0x65E5, 0x672C, 0x8A9E] @ u '' world''] ([], False))"
proof -
  note run = check_languages_ok [where s = s and file_path = file_path and log_file = log_file,
      OF assms]
  have 1: "fst (check_languages cfg NoFault NoFault s file_path log_file) log_file =
           Some (File (concat (map (\<lambda>line. py_strip line @ [10])
             (filter (\<lambda>line. \<exists>c \<in> set (re_sub_parens line).
                        (0x3040 \<le> c \<and> c \<le> 0x309F) \<or> (0x30A0 \<le> c \<and> c \<le> 0x30FF) \<or>
                        (0x4E00 \<le> c \<and> c \<le> 0x9FFF))
                (split_nl content)))))"
    unfolding run scan_lines_text by simp
  have 2: "snd (check_languages cfg NoFault NoFault s file_path log_file) =
           (if \<exists>line \<in> set (split_nl content). \<exists>c \<in> set (re_sub_parens line).
                 (0x3040 \<le> c \<and> c \<le> 0x309F) \<or> (0x30A0 \<le> c \<and> c \<le> 0x30FF) \<or>
                 (0x4E00 \<le> c \<and> c \<le> 0x9FFF)
            then Finished else NoneFound)"
    unfolding run scan_lines_found by simp
  have 3: "join [10] (split_nl content) = content" by (rule join_split_nl)
  have 4: "\<forall>line \<in> set (split_nl content). 10 \<notin> set line"
    using split_nl_no_newline by blast
  have 5: "\<forall>line. snd (scan_lines [line] ([], False)) \<longleftrightarrow>
            (\<exists>c \<in> set (re_sub_parens line).
               (0x3040 \<le> c \<and> c \<le> 0x309F) \<or> (0x30A0 \<le> c \<and> c \<le> 0x30FF) \<or>
               (0x4E00 \<le> c \<and> c \<le> 0x9FFF))"
    unfolding scan_lines_found by simp
  have 6: "\<forall>pre mid rest. 40 \<notin> set pre \<and> 41 \<notin> set mid \<and> 10 \<notin> set mid \<longrightarrow>
            re_sub_parens (pre @ 40 # mid @ 41 # rest) = pre @ re_sub_parens rest"
    using re_sub_parens_span by blast
  have 7: "\<forall>line. \<not> (\<exists>pre mid rest. line = pre @ 40 # mid @ 41 # rest \<and> 10 \<notin> set mid) \<longrightarrow>
            re_sub_parens line = line"
    using re_sub_parens_no_span by blast
  have 8: "\<not> snd (scan_lines [u ''hello ('' @ [0x65E5, 0x672C, 0x8A9E] @ u '') world''] ([], False))"
    by (simp add: u_def re_search_def japanese_pattern_def chinese_pattern_def)
  have 9: "snd (scan_lines [u ''hello '' @ [0x65E5, 0x672C, 0x8A9E] @ u '' world''] ([], False))"
    by (simp add: u_def re_search_def japanese_pattern_def chinese_pattern_def)
  from 1 2 3 4 5 6 7 8 9 show ?thesis by (intro conjI)
qed

theorem finding_iff_script_outside_parentheses_witness:
  "fst (check_languages CfgMissing NoFault NoFault example_scan ''doc.txt'' ''language_check.log'')
     ''language_check.log'' =
   Some (File (u ''hello '' @ [0x65E5, 0x672C, 0x8A9E] @ u '' world'' @ [10]))"
proof -
  let ?text = "u ''hello ('' @ [0x65E5, 0x672C, 0x8A9E] @ u '') world'' @ [10] @
             u ''  hello '' @ [0x65E5, 0x672C, 0x8A9E] @ u '' world '' @ [10] @
             u ''plain''"
  have a: "example_scan ''doc.txt'' = Some (File ?text)" by (simp add: example_scan_def)
  have b: "load_replacements CfgMissing = Inr (JObject [])" by (simp add: load_replacements_def)
  have c: "apply_custom [] ?text = Inr ?text" by simp
  note spec = finding_iff_script_outside_parentheses
    [where s = example_scan and file_path = "''doc.txt''" and log_file = "''language_check.log''",
     OF a b c, THEN conjunct1]
  show ?thesis unfolding spec
    by (simp add: u_def py_strip_def py_isspace_def)
qed

text \<open>
  Claim C5 says that the logged text of a flagged line keeps the leading whitespace of
  the line and loses only the trailing whitespace. The script calls
  \<^verbatim>\<open>line.strip()\<close>, which trims both ends: for the flagged line
  \<^verbatim>\<open>"  hello ... world "\<close> the log holds the line without its two leading
  blanks, which is not what a trailing trim leaves.
\<close>

theorem logged_text_only_trailing_trim_counterexample:
  "fst (check_languages CfgMissing NoFault NoFault example_scan ''doc.txt'' ''language_check.log'')
     ''language_check.log'' =
     Some (File (u ''hello '' @ [0x65E5, 0x672C, 0x8A9E] @ u '' world'' @ [10])) \<and>
   snd (scan_lines [u ''  hello '' @ [0x65E5, 0x672C, 0x8A9E] @ u '' world ''] ([], False)) \<and>
   fst (scan_lines [u ''  hello '' @ [0x65E5, 0x672C, 0x8A9E] @ u '' world ''] ([], False)) \<noteq>
     py_rstrip (u ''  hello '' @ [0x65E5, 0x672C, 0x8A9E] @ u '' world '') @ [10] \<and>
   py_rstrip (u ''  hello '' @ [0x65E5, 0x672C, 0x8A9E] @ u '' world '') =
     u ''  hello '' @ [0x65E5, 0x672C, 0x8A9E] @ u '' world''"
proof (intro conjI)
  let ?text = "u ''hello ('' @ [0x65E5, 0x672C, 0x8A9E] @ u '') world'' @ [10] @
             u ''  hello '' @ [0x65E5, 0x672C, 0x8A9E] @ u '' world '' @ [10] @
             u ''plain''"
  have a: "example_scan ''doc.txt'' = Some (File ?text)" by (simp add: example_scan_def)
  have b: "load_replacements CfgMissing = Inr (JObject [])" by (simp add: load_replacements_def)
  have c: "apply_custom [] ?text = Inr ?text" by simp
  note run = check_languages_ok
    [where s = example_scan and file_path = "''doc.txt''" and log_file = "''language_check.log''",
     OF a b c]
  show "fst (check_languages CfgMissing NoFault NoFault example_scan ''doc.txt'' ''language_check.log'')
     ''language_check.log'' =
     Some (File (u ''hello '' @ [0x65E5, 0x672C, 0x8A9E] @ u '' world'' @ [10]))"
    unfolding run
    by (simp add: u_def py_strip_def py_isspace_def re_search_def japanese_pattern_def
        chinese_pattern_def)
  show "snd (scan_lines [u ''  hello '' @ [0x65E5, 0x672C, 0x8A9E] @ u '' world ''] ([], False))"
    by (simp add: u_def re_search_def japanese_pattern_def chinese_pattern_def)
  show "fst (scan_lines [u ''  hello '' @ [0x65E5, 0x672C, 0x8A9E] @ u '' world ''] ([], False)) \<noteq>
     py_rstrip (u ''  hello '' @ [0x65E5, 0x672C, 0x8A9E] @ u '' world '') @ [10]"
    by (simp add: u_def py_strip_def py_rstrip_def py_isspace_def re_search_def
        japanese_pattern_def chinese_pattern_def)
  show "py_rstrip (u ''  hello '' @ [0x65E5, 0x672C, 0x8A9E] @ u '' world '') =
     u ''  hello '' @ [0x65E5, 0x672C, 0x8A9E] @ u '' world''"
    by (simp add: u_def py_rstrip_def py_isspace_def)
qed

text \<open>
  Claim C5, amended. For every flagged line the text written to the findings log is
  the line with the whitespace at both ends removed, followed by a line feed; what
  lies between the first and the last character that is not whitespace is kept as it
  is.
\<close>

theorem logged_text_is_stripped_line:
  assumes "s file_path = Some (File original)"
    and "load_replacements cfg = Inr (JObject replacements)"
    and "apply_custom replacements original = Inr content"
  shows "fst (check_languages cfg NoFault NoFault s file_path log_file) log_file =
           Some (File (concat (map (\<lambda>line. py_strip line @ [10])
             (filter (\<lambda>line. snd (scan_lines [line] ([], False))) (split_nl content))))) \<and>
         (\<forall>line. \<exists>a b. line = a @ py_strip line @ b \<and>
            list_all py_isspace a \<and> list_all py_isspace b \<and>
            (py_strip line \<noteq> [] \<longrightarrow>
               \<not> py_isspace (hd (py_strip line)) \<and> \<not> py_isspace (last (py_strip line))))"
proof
  note run = check_languages_ok [where s = s and file_path = file_path and log_file = log_file,
      OF assms]
  show "fst (check_languages cfg NoFault NoFault s file_path log_file) log_file =
           Some (File (concat (map (\<lambda>line. py_strip line @ [10])
             (filter (\<lambda>line. snd (scan_lines [line] ([], False))) (split_nl content)))))"
    unfolding run using scan_lines_flagged [of "split_nl content"] by simp
  show "\<forall>line. \<exists>a b. line = a @ py_strip line @ b \<and>
            list_all py_isspace a \<and> list_all py_isspace b \<and>
            (py_strip line \<noteq> [] \<longrightarrow>
               \<not> py_isspace (hd (py_strip line)) \<and> \<not> py_isspace (last (py_strip line)))"
  proof
    fix line
    obtain a b where "line = a @ py_strip line @ b" "list_all py_isspace a" "list_all py_isspace b"
      using py_strip_decomp [of line] by blast
    then show "\<exists>a b. line = a @ py_strip line @ b \<and>
            list_all py_isspace a \<and> list_all py_isspace b \<and>
            (py_strip line \<noteq> [] \<longrightarrow>
               \<not> py_isspace (hd (py_strip line)) \<and> \<not> py_isspace (last (py_strip line)))"
      using py_strip_ends [of line] by blast
  qed
qed

theorem logged_text_is_stripped_line_witness:
  "fst (check_languages CfgMissing NoFault NoFault example_scan ''doc.txt'' ''language_check.log'')
     ''language_check.log'' =
   Some (File (py_strip (u ''  hello '' @ [0x65E5, 0x672C, 0x8A9E] @ u '' world '') @ [10])) \<and>
   py_strip (u ''  hello '' @ [0x65E5, 0x672C, 0x8A9E] @ u '' world '') =
     u ''hello '' @ [0x65E5, 0x672C, 0x8A9E] @ u '' world''"
proof
  let ?text = "u ''hello ('' @ [0x65E5, 0x672C, 0x8A9E] @ u '') world'' @ [10] @
             u ''  hello '' @ [0x65E5, 0x672C, 0x8A9E] @ u '' world '' @ [10] @
             u ''plain''"
  have a: "example_scan ''doc.txt'' = Some (File ?text)" by (simp add: example_scan_def)
  have b: "load_replacements CfgMissing = Inr (JObject [])" by (simp add: load_replacements_def)
  have c: "apply_custom [] ?text = Inr ?text" by simp
  note spec = logged_text_is_stripped_line
    [where s = example_scan and file_path = "''doc.txt''" and log_file = "''language_check.log''",
     OF a b c, THEN conjunct1]
  show "fst (check_languages CfgMissing NoFault NoFault example_scan ''doc.txt'' ''language_check.log'')
     ''language_check.log'' =
   Some (File (py_strip (u ''  hello '' @ [0x65E5, 0x672C, 0x8A9E] @ u '' world '') @ [10]))"
    unfolding spec
    by (simp add: u_def re_search_def japanese_pattern_def chinese_pattern_def)
  show "py_strip (u ''  hello '' @ [0x65E5, 0x672C, 0x8A9E] @ u '' world '') =
     u ''hello '' @ [0x65E5, 0x672C, 0x8A9E] @ u '' world''"
    by (simp add: u_def py_strip_def py_isspace_def)
qed

section \<open>Failing writes\<close>

text \<open>
  Claim C6 says that a failing write leaves the target either with the full new
  content or with its original content. Both scripts open the target with mode
  \<^verbatim>\<open>'w'\<close>, which truncates it, and write afterwards; neither writes to a
  temporary file first. When the write fails after the first character, the target
  of \<^verbatim>\<open>main\<close> holds \<^verbatim>\<open>b\<close>, neither \<^verbatim>\<open>foo\<close> nor \<^verbatim>\<open>baz\<close>, and
  likewise for the document of \<^verbatim>\<open>check_languages\<close>.
\<close>

theorem no_partial_write_counterexample:
  "example_cascade ''target.txt'' = Some (File (u ''foo'')) \<and>
   main (WriteFails 1) example_cascade ''proof.log'' ''translated.log'' ''target.txt'' =
     (example_cascade(''target.txt'' \<mapsto> File (u ''b'')), WriteError 2) \<and>
   main NoFault example_cascade ''proof.log'' ''translated.log'' ''target.txt'' =
     (example_cascade(''target.txt'' \<mapsto> File (u ''baz'')), Modified 2) \<and>
   u ''b'' \<noteq> u ''foo'' \<and> u ''b'' \<noteq> u ''baz'' \<and>
   example_plain ''doc.txt'' = Some (File (u ''plain (text)'' @ [10])) \<and>
   check_languages (CfgJson (JObject [(u ''plain'', JStr (u ''simple''))])) (WriteFails 3) NoFault
       example_plain ''doc.txt'' ''language_check.log'' =
     (example_plain(''doc.txt'' \<mapsto> File (u ''sim'')), ErrorOccurred OSError) \<and>
   fst (check_languages (CfgJson (JObject [(u ''plain'', JStr (u ''simple''))])) NoFault NoFault
       example_plain ''doc.txt'' ''language_check.log'') ''doc.txt'' =
     Some (File (u ''simple  (text)'' @ [10])) \<and>
   u ''sim'' \<noteq> u ''plain (text)'' @ [10] \<and> u ''sim'' \<noteq> u ''simple  (text)'' @ [10]"
proof (intro conjI)
  have m: "create_replacement_map example_cascade ''proof.log'' ''translated.log'' =
          Some [(u ''foo'', u ''bar''), (u ''bar'', u ''baz'')]"
    by (simp add: example_cascade_def run_defs)
  have a: "apply_rules [(u ''foo'', u ''bar''), (u ''bar'', u ''baz'')] (u ''foo'', 0) = (u ''baz'', 2)"
    by (simp add: u_def py_replace_def)
  have t: "read_text example_cascade ''target.txt'' = Inr (u ''foo'')"
    by (simp add: example_cascade_def read_text_def)
  have ne: "u ''foo'' \<noteq> u ''baz''" by (simp add: u_def)
  have tk: "take (Suc 0) (u ''baz'') = u ''b''" by (simp add: u_def)
  show "example_cascade ''target.txt'' = Some (File (u ''foo''))"
    by (simp add: example_cascade_def)
  show "main (WriteFails 1) example_cascade ''proof.log'' ''translated.log'' ''target.txt'' =
     (example_cascade(''target.txt'' \<mapsto> File (u ''b'')), WriteError 2)"
    unfolding main_def m by (simp add: t a ne tk write_text_def del: apply_rules.simps)
  show "main NoFault example_cascade ''proof.log'' ''translated.log'' ''target.txt'' =
     (example_cascade(''target.txt'' \<mapsto> File (u ''baz'')), Modified 2)"
    unfolding main_def m by (simp add: t a ne write_text_def del: apply_rules.simps)
  show "u ''b'' \<noteq> u ''foo''" by (simp add: u_def)
  show "u ''b'' \<noteq> u ''baz''" by (simp add: u_def)
  let ?cfg = "CfgJson (JObject [(u ''plain'', JStr (u ''simple''))])"
  let ?text = "u ''plain (text)'' @ [10]"
  let ?new = "u ''simple  (text)'' @ [10]"
  show d: "example_plain ''doc.txt'' = Some (File ?text)" by (simp add: example_plain_def)
  have l: "load_replacements ?cfg = Inr (JObject [(u ''plain'', JStr (u ''simple''))])"
    by (simp add: load_replacements_def)
  have c: "apply_custom [(u ''plain'', JStr (u ''simple''))] ?text = Inr ?new"
    by (simp add: u_def py_replace_def)
  show "check_languages ?cfg (WriteFails 3) NoFault example_plain ''doc.txt'' ''language_check.log'' =
     (example_plain(''doc.txt'' \<mapsto> File (u ''sim'')), ErrorOccurred OSError)"
    unfolding check_languages_writes
      [where s = example_plain and file_path = "''doc.txt''", OF d l c]
    by (simp add: write_text_def u_def)
  show "fst (check_languages ?cfg NoFault NoFault example_plain ''doc.txt'' ''language_check.log'')
          ''doc.txt'' = Some (File ?new)"
    unfolding check_languages_ok
      [where s = example_plain and file_path = "''doc.txt''", OF d l c]
    by simp
  show "u ''sim'' \<noteq> ?text" by (simp add: u_def)
  show "u ''sim'' \<noteq> ?new" by (simp add: u_def)
qed

text \<open>
  Claim C6, amended. When the write of the target fails, the script logs the error
  and ends without raising. If opening the target fails, the target keeps its
  original content. If the write fails after the target has been opened, the original
  content is gone and the target holds a prefix of the new content, which may be
  empty. This holds for the write-back of \<^verbatim>\<open>main\<close> and for the rewrite of
  \<^verbatim>\<open>check_languages\<close>.
\<close>

theorem failed_write_leaves_prefix:
  "(create_replacement_map s proof_log translated_log = Some rules \<and>
    s target_file = Some (File original) \<and>
    apply_rules rules (original, 0) = (content, k) \<and> content \<noteq> original \<longrightarrow>
      main OpenFails s proof_log translated_log target_file = (s, WriteError k) \<and>
      (\<forall>n. main (WriteFails n) s proof_log translated_log target_file =
             (s(target_file \<mapsto> File (take n content)), WriteError k))) \<and>
   (d file_path = Some (File original') \<and>
    load_replacements cfg = Inr (JObject replacements) \<and>
    apply_custom replacements original' = Inr content' \<longrightarrow>
      check_languages cfg OpenFails log_fault d file_path log_file = (d, ErrorOccurred OSError) \<and>
      (\<forall>n. check_languages cfg (WriteFails n) log_fault d file_path log_file =
             (d(file_path \<mapsto> File (take n content')), ErrorOccurred OSError)))"
proof (intro conjI impI allI)
  assume a: "create_replacement_map s proof_log translated_log = Some rules \<and>
    s target_file = Some (File original) \<and>
    apply_rules rules (original, 0) = (content, k) \<and> content \<noteq> original"
  then have m: "create_replacement_map s proof_log translated_log = Some rules"
    and rd: "read_text s target_file = Inr original"
    and lp: "apply_rules rules (original, 0) = (content, k)"
    and ne: "original \<noteq> content"
    by (auto simp: read_text_def)
  have rne: "rules \<noteq> []" using create_replacement_map_keys(1) [OF m] .
  show "main OpenFails s proof_log translated_log target_file = (s, WriteError k)"
    unfolding main_def m by (simp add: rne rd lp ne write_text_def)
  fix n
  show "main (WriteFails n) s proof_log translated_log target_file =
             (s(target_file \<mapsto> File (take n content)), WriteError k)"
    unfolding main_def m by (simp add: rne rd lp ne write_text_def)
next
  assume a: "d file_path = Some (File original') \<and>
    load_replacements cfg = Inr (JObject replacements) \<and>
    apply_custom replacements original' = Inr content'"
  note w = check_languages_writes [where s = d and file_path = file_path,
      OF a [THEN conjunct1] a [THEN conjunct2, THEN conjunct1] a [THEN conjunct2, THEN conjunct2]]
  show "check_languages cfg OpenFails log_fault d file_path log_file = (d, ErrorOccurred OSError)"
    unfolding w by (simp add: write_text_def)
  fix n
  show "check_languages cfg (WriteFails n) log_fault d file_path log_file =
             (d(file_path \<mapsto> File (take n content')), ErrorOccurred OSError)"
    unfolding w by (simp add: write_text_def)
qed

theorem failed_write_leaves_prefix_witness:
  "main OpenFails example_cascade ''proof.log'' ''translated.log'' ''target.txt'' =
     (example_cascade, WriteError 2) \<and>
   main (WriteFails 2) example_cascade ''proof.log'' ''translated.log'' ''target.txt'' =
     (example_cascade(''target.txt'' \<mapsto> File (u ''ba'')), WriteError 2) \<and>
   check_languages (CfgJson (JObject [(u ''plain'', JStr (u ''simple''))])) OpenFails NoFault
       example_plain ''doc.txt'' ''language_check.log'' =
     (example_plain, ErrorOccurred OSError) \<and>
   check_languages (CfgJson (JObject [(u ''plain'', JStr (u ''simple''))])) (WriteFails 0) NoFault
       example_plain ''doc.txt'' ''language_check.log'' =
     (example_plain(''doc.txt'' \<mapsto> File []), ErrorOccurred OSError)"
proof -
  have m: "create_replacement_map example_cascade ''proof.log'' ''translated.log'' =
          Some [(u ''foo'', u ''bar''), (u ''bar'', u ''baz'')]"
    by (simp add: example_cascade_def run_defs)
  have a: "apply_rules [(u ''foo'', u ''bar''), (u ''bar'', u ''baz'')] (u ''foo'', 0) = (u ''baz'', 2)"
    by (simp add: u_def py_replace_def)
  have t: "example_cascade ''target.txt'' = Some (File (u ''foo''))"
    by (simp add: example_cascade_def)
  have ne: "u ''baz'' \<noteq> u ''foo''" by (simp add: u_def)
  note fix_spec = failed_write_leaves_prefix
    [where s = example_cascade and target_file = "''target.txt''",
     THEN conjunct1, rule_format, OF conjI [OF m conjI [OF t conjI [OF a ne]]]]
  have 1: "main OpenFails example_cascade ''proof.log'' ''translated.log'' ''target.txt'' =
     (example_cascade, WriteError 2)"
    using fix_spec [THEN conjunct1] .
  have "main (WriteFails 2) example_cascade ''proof.log'' ''translated.log'' ''target.txt'' =
     (example_cascade(''target.txt'' \<mapsto> File (take 2 (u ''baz''))), WriteError 2)"
    using fix_spec [THEN conjunct2, rule_format, of 2] .
  then have 2: "main (WriteFails 2) example_cascade ''proof.log'' ''translated.log'' ''target.txt'' =
     (example_cascade(''target.txt'' \<mapsto> File (u ''ba'')), WriteError 2)"
    by (simp add: u_def)
  let ?cfg = "CfgJson (JObject [(u ''plain'', JStr (u ''simple''))])"
  let ?text = "u ''plain (text)'' @ [10]"
  let ?new = "u ''simple  (text)'' @ [10]"
  have d: "example_plain ''doc.txt'' = Some (File ?text)" by (simp add: example_plain_def)
  have l: "load_replacements ?cfg = Inr (JObject [(u ''plain'', JStr (u ''simple''))])"
    by (simp add: load_replacements_def)
  have c: "apply_custom [(u ''plain'', JStr (u ''simple''))] ?text = Inr ?new"
    by (simp add: u_def py_replace_def)
  note chk_spec = failed_write_leaves_prefix
    [where d = example_plain and file_path = "''doc.txt''",
     THEN conjunct2, rule_format, OF conjI [OF d conjI [OF l c]]]
  have 3: "check_languages ?cfg OpenFails NoFault example_plain ''doc.txt'' ''language_check.log'' =
     (example_plain, ErrorOccurred OSError)"
    using chk_spec [THEN conjunct1] .
  have 4: "check_languages ?cfg (WriteFails 0) NoFault example_plain ''doc.txt'' ''language_check.log'' =
     (example_plain(''doc.txt'' \<mapsto> File []), ErrorOccurred OSError)"
    using chk_spec [THEN conjunct2, rule_format, of 0] by simp
  from 1 2 3 4 show ?thesis by (intro conjI)
qed

section \<open>Running the detector again\<close>

text \<open>
  Claim C9 says that a second run leaves the document unchanged when re-applying
  each configured replacement of old by new to the once-rewritten text changes
  nothing. The detector replaces old by new followed by a blank. For the
  configuration \<^verbatim>\<open>{"a": "a"}\<close> and the document \<^verbatim>\<open>a\<close> the first run leaves
  \<^verbatim>\<open>a\<close> and one blank; replacing \<^verbatim>\<open>a\<close> by \<^verbatim>\<open>a\<close> in that text changes
  nothing, so the hypothesis of the claim holds; the second run leaves \<^verbatim>\<open>a\<close> and
  two blanks.
\<close>

theorem rescan_idempotence_counterexample:
  "check_languages (CfgJson (JObject [(u ''a'', JStr (u ''a''))])) NoFault NoFault
       example_a ''doc.txt'' ''language_check.log'' =
     (example_a(''doc.txt'' \<mapsto> File (u ''a ''), ''language_check.log'' \<mapsto> File []), NoneFound) \<and>
   py_replace (u ''a'') (u ''a'') (u ''a '') = u ''a '' \<and>
   check_languages (CfgJson (JObject [(u ''a'', JStr (u ''a''))])) NoFault NoFault
       (example_a(''doc.txt'' \<mapsto> File (u ''a ''), ''language_check.log'' \<mapsto> File []))
       ''doc.txt'' ''language_check.log'' =
     (example_a(''doc.txt'' \<mapsto> File (u ''a  ''), ''language_check.log'' \<mapsto> File []), NoneFound) \<and>
   u ''a  '' \<noteq> u ''a ''"
proof (intro conjI)
  let ?cfg = "CfgJson (JObject [(u ''a'', JStr (u ''a''))])"
  let ?s1 = "example_a(''doc.txt'' \<mapsto> File (u ''a ''), ''language_check.log'' \<mapsto> File [])"
  have l: "load_replacements ?cfg = Inr (JObject [(u ''a'', JStr (u ''a''))])"
    by (simp add: load_replacements_def)
  have d0: "example_a ''doc.txt'' = Some (File (u ''a''))" by (simp add: example_a_def)
  have c0: "apply_custom [(u ''a'', JStr (u ''a''))] (u ''a'') = Inr (u ''a '')"
    by (simp add: u_def py_replace_def)
  have sc0: "scan_lines (split_nl (u ''a '')) ([], False) = ([], False)"
    by (simp add: u_def re_search_def japanese_pattern_def chinese_pattern_def)
  show "check_languages ?cfg NoFault NoFault example_a ''doc.txt'' ''language_check.log'' =
          (?s1, NoneFound)"
    unfolding check_languages_ok [where s = example_a and file_path = "''doc.txt''", OF d0 l c0]
    by (simp add: sc0)
  show "py_replace (u ''a'') (u ''a'') (u ''a '') = u ''a ''"
    by (simp add: u_def py_replace_def)
  have d1: "?s1 ''doc.txt'' = Some (File (u ''a ''))" by simp
  have c1: "apply_custom [(u ''a'', JStr (u ''a''))] (u ''a '') = Inr (u ''a  '')"
    by (simp add: u_def py_replace_def)
  have sc1: "scan_lines (split_nl (u ''a  '')) ([], False) = ([], False)"
    by (simp add: u_def re_search_def japanese_pattern_def chinese_pattern_def)
  have "check_languages ?cfg NoFault NoFault ?s1 ''doc.txt'' ''language_check.log'' =
          (?s1(''doc.txt'' \<mapsto> File (u ''a  ''), ''language_check.log'' \<mapsto> File []), NoneFound)"
    unfolding check_languages_ok [where s = ?s1 and file_path = "''doc.txt''", OF d1 l c1]
    by (simp add: sc1)
  moreover have "?s1(''doc.txt'' \<mapsto> File (u ''a  ''), ''language_check.log'' \<mapsto> File []) =
      example_a(''doc.txt'' \<mapsto> File (u ''a  ''), ''language_check.log'' \<mapsto> File [])"
    by (rule ext) simp
  ultimately show "check_languages ?cfg NoFault NoFault ?s1 ''doc.txt'' ''language_check.log'' =
     (example_a(''doc.txt'' \<mapsto> File (u ''a  ''), ''language_check.log'' \<mapsto> File []), NoneFound)"
    by simp
  show "u ''a  '' \<noteq> u ''a ''" by (simp add: u_def)
qed

text \<open>
  Claim C9, amended. Let the detector run twice in a row on the same document with
  the same configured substitutions, the findings log being another file than the
  document and the write of the document succeeding in both runs. If applying any
  configured replacement to the once-rewritten text again, as the detector applies
  it (old replaced by new followed by a blank), changes nothing, and that text has no
  carriage return, then the second run leaves the document as the first run left it:
  it holds the once-rewritten text after either run. When the first run ends before
  it writes (the document is missing or unreadable, the configuration does not load
  as strings), so does the second, and the document is untouched. The condition on
  the carriage return is where the file store is exact: a text layer never presents
  one when it reads, so only a configured value can bring one in.
\<close>

theorem second_run_leaves_document:
  assumes "file_path \<noteq> log_file"
    and "check_languages cfg NoFault log_fault s file_path log_file = (s1, outcome1)"
    and "check_languages cfg NoFault log_fault' s1 file_path log_file = (s2, outcome2)"
    and "\<forall>original replacements content old n.
           s file_path = Some (File original) \<and>
           load_replacements cfg = Inr (JObject replacements) \<and>
           apply_custom replacements original = Inr content \<and>
           (old, JStr n) \<in> set replacements \<longrightarrow>
           py_replace old (n @ [32]) content = content"
    and "\<forall>original replacements content.
           s file_path = Some (File original) \<and>
           load_replacements cfg = Inr (JObject replacements) \<and>
           apply_custom replacements original = Inr content \<longrightarrow>
           13 \<notin> set content"
  shows "s2 file_path = s1 file_path \<and>
         (\<forall>original replacements content.
            s file_path = Some (File original) \<and>
            load_replacements cfg = Inr (JObject replacements) \<and>
            apply_custom replacements original = Inr content \<longrightarrow>
            s1 file_path = Some (File content) \<and> s2 file_path = Some (File content))"
proof (cases "\<exists>original replacements content.
                s file_path = Some (File original) \<and>
                load_replacements cfg = Inr (JObject replacements) \<and>
                apply_custom replacements original = Inr content")
  case False
  then have un: "\<forall>original replacements content.
             \<not> (s file_path = Some (File original) \<and>
                load_replacements cfg = Inr (JObject replacements) \<and>
                apply_custom replacements original = Inr content)" by blast
  have "fst (check_languages cfg NoFault log_fault s file_path log_file) = s"
    using un by (rule check_languages_unreached)
  then have s1: "s1 = s" using assms(2) by simp
  have "fst (check_languages cfg NoFault log_fault' s file_path log_file) = s"
    using un by (rule check_languages_unreached)
  then have "s2 = s" using assms(3) s1 by simp
  with s1 un show ?thesis by blast
next
  case True
  then obtain original replacements content where
    st: "s file_path = Some (File original)" and
    ld: "load_replacements cfg = Inr (JObject replacements)" and
    ac: "apply_custom replacements original = Inr content" by blast
  have "fst (check_languages cfg NoFault log_fault s file_path log_file) file_path =
          Some (File content)"
    using check_languages_log_only [where s = s and file_path = file_path, OF assms(1) st ld ac] .
  then have d1: "s1 file_path = Some (File content)" using assms(2) by simp
  have "\<forall>old n. (old, JStr n) \<in> set replacements \<longrightarrow> py_replace old (n @ [32]) content = content"
    using assms(4) st ld ac by blast
  then have "apply_custom replacements content = Inr content \<or>
             apply_custom replacements content = Inl TypeError"
    by (rule apply_custom_fixed)
  moreover have "apply_custom replacements content \<noteq> Inl TypeError"
    using ac by (rule apply_custom_never_raises)
  ultimately have ac2: "apply_custom replacements content = Inr content" by blast
  have "fst (check_languages cfg NoFault log_fault' s1 file_path log_file) file_path =
          Some (File content)"
    using check_languages_log_only [where s = s1 and file_path = file_path, OF assms(1) d1 ld ac2] .
  then have d2: "s2 file_path = Some (File content)" using assms(3) by simp
  show ?thesis
  proof (intro conjI allI impI)
    show "s2 file_path = s1 file_path" using d1 d2 by simp
  next
    fix original' replacements' content'
    assume a: "s file_path = Some (File original') \<and>
            load_replacements cfg = Inr (JObject replacements') \<and>
            apply_custom replacements' original' = Inr content'"
    with st ld ac have "content' = content" by simp
    then show "s1 file_path = Some (File content')" using d1 by simp
  next
    fix original' replacements' content'
    assume a: "s file_path = Some (File original') \<and>
            load_replacements cfg = Inr (JObject replacements') \<and>
            apply_custom replacements' original' = Inr content'"
    with st ld ac have "content' = content" by simp
    then show "s2 file_path = Some (File content')" using d2 by simp
  qed
qed

theorem second_run_leaves_document_witness:
  "check_languages (CfgJson (JObject [(u ''plain'', JStr (u ''simple''))])) NoFault NoFault
     example_plain ''doc.txt'' ''language_check.log'' =
   (example_plain(''doc.txt'' \<mapsto> File (u ''simple  (text)'' @ [10]),
                  ''language_check.log'' \<mapsto> File []), NoneFound) \<and>
   fst (check_languages (CfgJson (JObject [(u ''plain'', JStr (u ''simple''))])) NoFault NoFault
     (example_plain(''doc.txt'' \<mapsto> File (u ''simple  (text)'' @ [10]),
                    ''language_check.log'' \<mapsto> File []))
     ''doc.txt'' ''language_check.log'') ''doc.txt'' =
   Some (File (u ''simple  (text)'' @ [10]))"
proof -
  let ?cfg = "CfgJson (JObject [(u ''plain'', JStr (u ''simple''))])"
  let ?text = "u ''plain (text)'' @ [10]"
  let ?new = "u ''simple  (text)'' @ [10]"
  let ?s1 = "example_plain(''doc.txt'' \<mapsto> File ?new, ''language_check.log'' \<mapsto> File [])"
  have d: "example_plain ''doc.txt'' = Some (File ?text)" by (simp add: example_plain_def)
  have l: "load_replacements ?cfg = Inr (JObject [(u ''plain'', JStr (u ''simple''))])"
    by (simp add: load_replacements_def)
  have c: "apply_custom [(u ''plain'', JStr (u ''simple''))] ?text = Inr ?new"
    by (simp add: u_def py_replace_def)
  have sc: "scan_lines (split_nl ?new) ([], False) = ([], False)"
    by (simp add: u_def re_search_def japanese_pattern_def chinese_pattern_def)
  have run1: "check_languages ?cfg NoFault NoFault example_plain ''doc.txt'' ''language_check.log'' =
     (?s1, NoneFound)"
    unfolding check_languages_ok [where s = example_plain and file_path = "''doc.txt''", OF d l c]
    by (simp add: sc)
  have run2: "check_languages ?cfg NoFault NoFault ?s1 ''doc.txt'' ''language_check.log'' =
     (fst (check_languages ?cfg NoFault NoFault ?s1 ''doc.txt'' ''language_check.log''),
      snd (check_languages ?cfg NoFault NoFault ?s1 ''doc.txt'' ''language_check.log''))"
    by simp
  have ne: "''doc.txt'' \<noteq> ''language_check.log''" by simp
  have idem: "py_replace (u ''plain'') (u ''simple'' @ [32]) ?new = ?new"
    by (simp add: u_def py_replace_def)
  have nocr: "13 \<notin> set ?new" by (simp add: u_def)
  have fixed: "\<And>original replacements content.
           example_plain ''doc.txt'' = Some (File original) \<and>
           load_replacements ?cfg = Inr (JObject replacements) \<and>
           apply_custom replacements original = Inr content \<Longrightarrow>
           replacements = [(u ''plain'', JStr (u ''simple''))] \<and> content = ?new"
  proof -
    fix original replacements content
    assume a: "example_plain ''doc.txt'' = Some (File original) \<and>
           load_replacements ?cfg = Inr (JObject replacements) \<and>
           apply_custom replacements original = Inr content"
    then have o: "original = ?text" using d by simp
    from a l have r: "replacements = [(u ''plain'', JStr (u ''simple''))]" by simp
    from a o r c have "content = ?new" by simp
    with r show "replacements = [(u ''plain'', JStr (u ''simple''))] \<and> content = ?new" by simp
  qed
  have hyp1: "\<forall>original replacements content old n.
           example_plain ''doc.txt'' = Some (File original) \<and>
           load_replacements ?cfg = Inr (JObject replacements) \<and>
           apply_custom replacements original = Inr content \<and>
           (old, JStr n) \<in> set replacements \<longrightarrow>
           py_replace old (n @ [32]) content = content"
  proof (intro allI impI)
    fix original replacements content old n
    assume a: "example_plain ''doc.txt'' = Some (File original) \<and>
           load_replacements ?cfg = Inr (JObject replacements) \<and>
           apply_custom replacements original = Inr content \<and>
           (old, JStr n) \<in> set replacements"
    then have "replacements = [(u ''plain'', JStr (u ''simple''))] \<and> content = ?new"
      using fixed [of original replacements content] by blast
    moreover with a have "old = u ''plain''" and "n = u ''simple''" by simp_all
    ultimately show "py_replace old (n @ [32]) content = content" using idem by simp
  qed
  have hyp2: "\<forall>original replacements content.
           example_plain ''doc.txt'' = Some (File original) \<and>
           load_replacements ?cfg = Inr (JObject replacements) \<and>
           apply_custom replacements original = Inr content \<longrightarrow>
           13 \<notin> set content"
    using fixed nocr by blast
  have "fst (check_languages ?cfg NoFault NoFault ?s1 ''doc.txt'' ''language_check.log'') ''doc.txt'' =
          ?s1 ''doc.txt''"
    using second_run_leaves_document [OF ne run1 run2 hyp1 hyp2, THEN conjunct1] .
  then have "fst (check_languages ?cfg NoFault NoFault ?s1 ''doc.txt'' ''language_check.log'') ''doc.txt'' =
          Some (File ?new)" by simp
  with run1 show ?thesis by simp
qed

section \<open>A missing document\<close>

text \<open>
  Claim C10 says that the findings log is always overwritten when the document
  exists. Everything behind the existence test runs under \<^verbatim>\<open>except Exception\<close>,
  and the log is opened last: a document that exists but is not UTF-8, or a
  \<^verbatim>\<open>replacements.json\<close> with a value that is not a string, ends the run before
  the log is opened, and the old log stays.
\<close>

theorem log_always_overwritten_counterexample:
  "path_exists example_sjis ''doc.txt'' \<and>
   example_sjis ''language_check.log'' = Some (File (u ''old finding'' @ [10])) \<and>
   check_languages CfgMissing NoFault NoFault example_sjis ''doc.txt'' ''language_check.log'' =
     (example_sjis, ErrorOccurred UnicodeDecodeError) \<and>
   path_exists example_plain ''doc.txt'' \<and>
   example_plain ''language_check.log'' = Some (File (u ''old finding'' @ [10])) \<and>
   check_languages (CfgJson (JObject [(u ''a'', JNonStr)])) NoFault NoFault
       example_plain ''doc.txt'' ''language_check.log'' =
     (example_plain, ErrorOccurred TypeError)"
  by (simp add: example_sjis_def example_plain_def check_languages_def path_exists_def
      read_text_def load_replacements_def)

text \<open>
  Claim C10, amended. If the path of the document does not exist,
  \<^verbatim>\<open>check_languages\<close> returns before it opens any file for writing: the file
  store is unchanged, so the document is not created and the findings log is neither
  created nor overwritten. When the document exists, the findings log is overwritten
  exactly in the runs that reach the opening of the log and succeed in it: the
  document is read, the configured substitutions load and apply, the document is
  written back, and the log is opened. The log then holds the findings of this run,
  or a prefix of them when a later write to it fails, and with zero findings it is
  empty. In every other run the log is left as it was: a run that ends before the
  write-back changes no file at all, and a run whose write-back fails, or that cannot
  open the log, leaves the log alone when it is another file than the document.
\<close>

theorem missing_document_writes_nothing:
  "(\<not> path_exists s file_path \<longrightarrow>
      check_languages cfg doc_fault log_fault s file_path log_file = (s, FileNotFound)) \<and>
   ((\<forall>original replacements content.
       \<not> (s file_path = Some (File original) \<and>
          load_replacements cfg = Inr (JObject replacements) \<and>
          apply_custom replacements original = Inr content)) \<longrightarrow>
      fst (check_languages cfg doc_fault log_fault s file_path log_file) = s) \<and>
   (s file_path = Some (File original) \<and>
    load_replacements cfg = Inr (JObject replacements) \<and>
    apply_custom replacements original = Inr content \<longrightarrow>
      (doc_fault \<noteq> NoFault \<and> file_path \<noteq> log_file \<longrightarrow>
         fst (check_languages cfg doc_fault log_fault s file_path log_file) log_file = s log_file) \<and>
      check_languages cfg NoFault OpenFails s file_path log_file =
        (s(file_path \<mapsto> File content), ErrorOccurred OSError) \<and>
      (file_path \<noteq> log_file \<longrightarrow>
         fst (check_languages cfg NoFault OpenFails s file_path log_file) log_file = s log_file) \<and>
      check_languages cfg NoFault NoFault s file_path log_file =
        (s(file_path \<mapsto> File content,
           log_file \<mapsto> File (fst (scan_lines (split_nl content) ([], False)))),
         if snd (scan_lines (split_nl content) ([], False)) then Finished else NoneFound) \<and>
      (\<forall>n. check_languages cfg NoFault (WriteFails n) s file_path log_file =
         (s(file_path \<mapsto> File content,
            log_file \<mapsto> File (take n (fst (scan_lines (split_nl content) ([], False))))),
          ErrorOccurred OSError)) \<and>
      (\<not> snd (scan_lines (split_nl content) ([], False)) \<longrightarrow>
         fst (scan_lines (split_nl content) ([], False)) = []))"
proof (intro conjI impI allI)
  assume "\<not> path_exists s file_path"
  then show "check_languages cfg doc_fault log_fault s file_path log_file = (s, FileNotFound)"
    by (rule check_languages_missing)
next
  assume "\<forall>original replacements content.
       \<not> (s file_path = Some (File original) \<and>
          load_replacements cfg = Inr (JObject replacements) \<and>
          apply_custom replacements original = Inr content)"
  then show "fst (check_languages cfg doc_fault log_fault s file_path log_file) = s"
    by (rule check_languages_unreached)
next
  assume a: "s file_path = Some (File original) \<and>
    load_replacements cfg = Inr (JObject replacements) \<and>
    apply_custom replacements original = Inr content"
  assume b: "doc_fault \<noteq> NoFault \<and> file_path \<noteq> log_file"
  note w = check_languages_writes [where s = s and file_path = file_path,
      OF a [THEN conjunct1] a [THEN conjunct2, THEN conjunct1] a [THEN conjunct2, THEN conjunct2]]
  show "fst (check_languages cfg doc_fault log_fault s file_path log_file) log_file = s log_file"
    unfolding w using b by (cases doc_fault) (simp_all add: write_text_def)
next
  assume a: "s file_path = Some (File original) \<and>
    load_replacements cfg = Inr (JObject replacements) \<and>
    apply_custom replacements original = Inr content"
  note w = check_languages_writes [where s = s and file_path = file_path,
      OF a [THEN conjunct1] a [THEN conjunct2, THEN conjunct1] a [THEN conjunct2, THEN conjunct2]]
  show open_fails: "check_languages cfg NoFault OpenFails s file_path log_file =
        (s(file_path \<mapsto> File content), ErrorOccurred OSError)"
    unfolding w by (simp add: write_text_def)
  show "check_languages cfg NoFault NoFault s file_path log_file =
        (s(file_path \<mapsto> File content,
           log_file \<mapsto> File (fst (scan_lines (split_nl content) ([], False)))),
         if snd (scan_lines (split_nl content) ([], False)) then Finished else NoneFound)"
    unfolding w by (simp add: write_text_def)
  {
    assume "file_path \<noteq> log_file"
    then show "fst (check_languages cfg NoFault OpenFails s file_path log_file) log_file = s log_file"
      unfolding open_fails by simp
  }
  {
    fix n
    show "check_languages cfg NoFault (WriteFails n) s file_path log_file =
         (s(file_path \<mapsto> File content,
            log_file \<mapsto> File (take n (fst (scan_lines (split_nl content) ([], False))))),
          ErrorOccurred OSError)"
      unfolding w by (simp add: write_text_def)
  }
  {
    assume "\<not> snd (scan_lines (split_nl content) ([], False))"
    then show "fst (scan_lines (split_nl content) ([], False)) = []"
      by (rule scan_lines_none)
  }
qed

theorem missing_document_writes_nothing_witness:
  "check_languages CfgMissing NoFault NoFault example_plain ''missing.txt'' ''language_check.log'' =
     (example_plain, FileNotFound) \<and>
   example_plain ''language_check.log'' = Some (File (u ''old finding'' @ [10])) \<and>
   fst (check_languages (CfgJson JNonObject) NoFault NoFault
          example_plain ''doc.txt'' ''language_check.log'') = example_plain \<and>
   fst (check_languages CfgMissing (WriteFails 2) NoFault
          example_plain ''doc.txt'' ''language_check.log'') ''language_check.log'' =
     Some (File (u ''old finding'' @ [10])) \<and>
   fst (check_languages CfgMissing NoFault OpenFails
          example_plain ''doc.txt'' ''language_check.log'') ''language_check.log'' =
     Some (File (u ''old finding'' @ [10])) \<and>
   check_languages CfgMissing NoFault NoFault example_plain ''doc.txt'' ''language_check.log'' =
     (example_plain(''language_check.log'' \<mapsto> File []), NoneFound)"
proof -
  note spec = missing_document_writes_nothing
  have m: "\<not> path_exists example_plain ''missing.txt''"
    by (simp add: example_plain_def path_exists_def)
  have 1: "check_languages CfgMissing NoFault NoFault example_plain ''missing.txt'' ''language_check.log'' =
     (example_plain, FileNotFound)"
    using spec [THEN conjunct1, rule_format, OF m] .
  have 2: "example_plain ''language_check.log'' = Some (File (u ''old finding'' @ [10]))"
    by (simp add: example_plain_def)
  have un: "\<forall>original replacements content.
       \<not> (example_plain ''doc.txt'' = Some (File original) \<and>
          load_replacements (CfgJson JNonObject) = Inr (JObject replacements) \<and>
          apply_custom replacements original = Inr content)"
    by (simp add: load_replacements_def)
  have 3: "fst (check_languages (CfgJson JNonObject) NoFault NoFault
          example_plain ''doc.txt'' ''language_check.log'') = example_plain"
    using spec
      [where s = example_plain and file_path = "''doc.txt''" and cfg = "CfgJson JNonObject"
         and doc_fault = NoFault and log_fault = NoFault and log_file = "''language_check.log''",
       THEN conjunct2, THEN conjunct1, THEN mp, OF un] .
  let ?text = "u ''plain (text)'' @ [10]"
  have a: "example_plain ''doc.txt'' = Some (File ?text)" by (simp add: example_plain_def)
  have b: "load_replacements CfgMissing = Inr (JObject [])" by (simp add: load_replacements_def)
  have c: "apply_custom [] ?text = Inr ?text" by simp
  note reach = spec
      [where s = example_plain and file_path = "''doc.txt''" and original = ?text
         and cfg = CfgMissing and replacements = "[]" and content = ?text
         and log_file = "''language_check.log''",
       THEN conjunct2, THEN conjunct2, THEN mp, OF conjI [OF a conjI [OF b c]]]
  have ne: "''doc.txt'' \<noteq> ''language_check.log''" by simp
  have f: "WriteFails 2 \<noteq> NoFault" by simp
  have "fst (check_languages CfgMissing (WriteFails 2) NoFault
          example_plain ''doc.txt'' ''language_check.log'') ''language_check.log'' =
        example_plain ''language_check.log''"
    using spec
      [where s = example_plain and file_path = "''doc.txt''" and original = ?text
         and cfg = CfgMissing and replacements = "[]" and content = ?text
         and log_file = "''language_check.log''" and doc_fault = "WriteFails 2"
         and log_fault = NoFault,
       THEN conjunct2, THEN conjunct2, THEN mp, OF conjI [OF a conjI [OF b c]],
       THEN conjunct1, THEN mp, OF conjI [OF f ne]] .
  with 2 have 4: "fst (check_languages CfgMissing (WriteFails 2) NoFault
          example_plain ''doc.txt'' ''language_check.log'') ''language_check.log'' =
     Some (File (u ''old finding'' @ [10]))" by simp
  have "fst (check_languages CfgMissing NoFault OpenFails
          example_plain ''doc.txt'' ''language_check.log'') ''language_check.log'' =
        example_plain ''language_check.log''"
    using reach [THEN conjunct2, THEN conjunct2, THEN conjunct1, THEN mp, OF ne] .
  with 2 have 5: "fst (check_languages CfgMissing NoFault OpenFails
          example_plain ''doc.txt'' ''language_check.log'') ''language_check.log'' =
     Some (File (u ''old finding'' @ [10]))" by simp
  have n: "\<not> snd (scan_lines (split_nl ?text) ([], False))"
    by (simp add: u_def re_search_def japanese_pattern_def chinese_pattern_def)
  have e: "fst (scan_lines (split_nl ?text) ([], False)) = []"
    using reach [THEN conjunct2, THEN conjunct2, THEN conjunct2, THEN conjunct2, THEN conjunct2,
        THEN mp, OF n] .
  have "check_languages CfgMissing NoFault NoFault example_plain ''doc.txt'' ''language_check.log'' =
        (example_plain(''doc.txt'' \<mapsto> File ?text,
           ''language_check.log'' \<mapsto> File (fst (scan_lines (split_nl ?text) ([], False)))),
         if snd (scan_lines (split_nl ?text) ([], False)) then Finished else NoneFound)"
    using reach [THEN conjunct2, THEN conjunct2, THEN conjunct2, THEN conjunct1] .
  moreover have "example_plain(''doc.txt'' \<mapsto> File ?text) = example_plain"
    by (rule ext) (simp add: example_plain_def)
  ultimately have 6: "check_languages CfgMissing NoFault NoFault example_plain ''doc.txt'' ''language_check.log'' =
     (example_plain(''language_check.log'' \<mapsto> File []), NoneFound)"
    using n e by simp
  from 1 2 3 4 5 6 show ?thesis by (intro conjI)
qed

end
